theory Spec2Isabelle
  imports Complex_Main "HOL-Library.Monad_Syntax"
begin

section \<open>Tensors\<close>

text \<open>
  A tensor is its shape together with its entries, read by a multi-index (one position per
  dimension, outermost first). Entries are real numbers: the arithmetic of the program is
  modelled exactly, without rounding. An operation that raises in the source returns
  \<open>None\<close>.
\<close>

record tensor =
  shape :: "nat list"
  el :: "nat list \<Rightarrow> real"

text \<open>All multi-indices of a shape, in row-major order, and the entries in that order.\<close>

fun indices :: "nat list \<Rightarrow> nat list list" where
  "indices [] = [[]]"
| "indices (n # s) = concat (map (\<lambda>i. map ((#) i) (indices s)) [0..<n])"

definition data :: "tensor \<Rightarrow> real list" where
  "data t = map (el t) (indices (shape t))"

text \<open>\<open>torch.equal\<close>: same shape and same entries.\<close>

definition tensor_equal :: "tensor \<Rightarrow> tensor \<Rightarrow> bool" where
  "tensor_equal a b = (shape a = shape b \<and> data a = data b)"

text \<open>The sum of all entries (\<open>torch.sum(t)\<close>).\<close>

definition sum_all :: "tensor \<Rightarrow> real" where
  "sum_all t = sum_list (data t)"

text \<open>
  The row-major offset of a multi-index, and a tensor given by its shape and its entries
  in row-major order (\<open>torch.tensor(xs).view(s)\<close>).
\<close>

fun ravel :: "nat list \<Rightarrow> nat list \<Rightarrow> nat" where
  "ravel (n # s) (i # idx) = i * prod_list s + ravel s idx"
| "ravel _ _ = 0"

definition tensor_of :: "nat list \<Rightarrow> real list \<Rightarrow> tensor" where
  "tensor_of s xs = \<lparr>shape = s, el = (\<lambda>idx. xs ! ravel s idx)\<rparr>"

subsection \<open>Broadcasting\<close>

text \<open>
  Two shapes are aligned at their last dimension; aligned dimensions must be equal or one
  of them 1. The function works on the reversed shapes.
\<close>

fun bshape_rev :: "nat list \<Rightarrow> nat list \<Rightarrow> nat list option" where
  "bshape_rev [] ys = Some ys"
| "bshape_rev (x # xs) [] = Some (x # xs)"
| "bshape_rev (x # xs) (y # ys) =
     (if x = y \<or> y = 1 then map_option ((#) x) (bshape_rev xs ys)
      else if x = 1 then map_option ((#) y) (bshape_rev xs ys)
      else None)"

definition bshape :: "nat list \<Rightarrow> nat list \<Rightarrow> nat list option" where
  "bshape a b = map_option rev (bshape_rev (rev a) (rev b))"

text \<open>The index an operand of shape \<open>s\<close> is read at, for an index of the broadcast result.\<close>

definition bidx :: "nat list \<Rightarrow> nat list \<Rightarrow> nat list" where
  "bidx s idx = map2 (\<lambda>d i. if d = 1 then 0 else i) s (drop (length idx - length s) idx)"

definition bop :: "(real \<Rightarrow> real \<Rightarrow> real) \<Rightarrow> tensor \<Rightarrow> tensor \<Rightarrow> tensor option" where
  "bop f a b =
     (case bshape (shape a) (shape b) of
        None \<Rightarrow> None
      | Some s \<Rightarrow> Some \<lparr>shape = s,
                       el = (\<lambda>idx. f (el a (bidx (shape a) idx)) (el b (bidx (shape b) idx)))\<rparr>)"

definition t_add :: "tensor \<Rightarrow> tensor \<Rightarrow> tensor option" where
  "t_add = bop (+)"

definition t_sub :: "tensor \<Rightarrow> tensor \<Rightarrow> tensor option" where
  "t_sub = bop (-)"

definition t_mul :: "tensor \<Rightarrow> tensor \<Rightarrow> tensor option" where
  "t_mul = bop (*)"

text \<open>
  \<open>torch.div\<close>. Division by zero gives an infinity or a NaN in the source; both are
  outside the real numbers, so the model has no result there.
\<close>

definition t_div :: "tensor \<Rightarrow> tensor \<Rightarrow> tensor option" where
  "t_div a b =
     (case bop (/) a b of
        None \<Rightarrow> None
      | Some r \<Rightarrow>
          (if \<exists>idx \<in> set (indices (shape r)). el b (bidx (shape b) idx) = 0 then None
           else Some r))"

subsection \<open>Reductions and reshaping along one dimension\<close>

text \<open>\<open>torch.sum(t, d)\<close>: the dimension \<open>d\<close> is summed away.\<close>

definition sum_dim :: "nat \<Rightarrow> tensor \<Rightarrow> tensor option" where
  "sum_dim d t =
     (if d < length (shape t)
      then Some \<lparr>shape = take d (shape t) @ drop (Suc d) (shape t),
                 el = (\<lambda>idx. \<Sum>i < shape t ! d. el t (take d idx @ [i] @ drop d idx))\<rparr>
      else None)"

text \<open>\<open>torch.unsqueeze(t, d)\<close>: a new dimension of size 1 at position \<open>d\<close>.\<close>

definition unsqueeze :: "nat \<Rightarrow> tensor \<Rightarrow> tensor option" where
  "unsqueeze d t =
     (if d \<le> length (shape t)
      then Some \<lparr>shape = take d (shape t) @ [1] @ drop d (shape t),
                 el = (\<lambda>idx. el t (take d idx @ drop (Suc d) idx))\<rparr>
      else None)"

text \<open>\<open>t.repeat(*reps)\<close> with as many repetition counts as \<open>t\<close> has dimensions.\<close>

definition repeat :: "nat list \<Rightarrow> tensor \<Rightarrow> tensor option" where
  "repeat reps t =
     (if length reps = length (shape t)
      then Some \<lparr>shape = map2 (*) reps (shape t),
                 el = (\<lambda>idx. el t (map2 (\<lambda>i d. i mod d) idx (shape t)))\<rparr>
      else None)"

section \<open>Sensing operators\<close>

text \<open>
  \<open>A(x, Phi)\<close>: unpacks the four dimensions of \<open>x\<close>, multiplies by the mask and sums over
  the band dimension.
\<close>

definition A :: "tensor \<Rightarrow> tensor \<Rightarrow> tensor option" where
  "A x Phi =
     (if length (shape x) \<noteq> 4 then None
      else do {
        temp \<leftarrow> t_mul x Phi;
        sum_dim 1 temp
      })"

text \<open>
  \<open>At(y, Phi)\<close>: the measurement gets a band dimension, is repeated \<open>Phi.shape[1]\<close> times
  along it and multiplied by the mask.
\<close>

definition At :: "tensor \<Rightarrow> tensor \<Rightarrow> tensor option" where
  "At y Phi =
     (if length (shape Phi) < 2 then None
      else do {
        u \<leftarrow> unsqueeze 1 y;
        temp \<leftarrow> repeat [1, shape Phi ! 1, 1, 1] u;
        t_mul temp Phi
      })"

section \<open>Indexing, slicing and rolling\<close>

text \<open>\<open>torch.zeros(dims)\<close>: a negative dimension raises.\<close>

definition zeros :: "int list \<Rightarrow> tensor option" where
  "zeros dims =
     (if \<exists>d \<in> set dims. d < 0 then None
      else Some \<lparr>shape = map nat dims, el = (\<lambda>idx. 0)\<rparr>)"

text \<open>
  Python slices \<open>lo:hi\<close> on a dimension of size \<open>n\<close>: a negative bound counts from
  the end, and every bound is clamped to the range \<open>0..n\<close>.
\<close>

definition slice_norm :: "nat \<Rightarrow> int \<Rightarrow> int" where
  "slice_norm n i = (if i < 0 then max (i + int n) 0 else min i (int n))"

definition slice_start :: "nat \<Rightarrow> int \<Rightarrow> nat" where
  "slice_start n lo = nat (slice_norm n lo)"

definition slice_len :: "nat \<Rightarrow> int \<Rightarrow> int \<Rightarrow> nat" where
  "slice_len n lo hi = nat (slice_norm n hi - slice_norm n lo)"

text \<open>Reading \<open>t[..., lo:hi, ...]\<close> along dimension \<open>d\<close>.\<close>

definition narrow :: "nat \<Rightarrow> int \<Rightarrow> int \<Rightarrow> tensor \<Rightarrow> tensor option" where
  "narrow d lo hi t =
     (if d < length (shape t)
      then let n = shape t ! d in
        Some \<lparr>shape = (shape t)[d := slice_len n lo hi],
              el = (\<lambda>idx. el t (idx[d := idx ! d + slice_start n lo]))\<rparr>
      else None)"

text \<open>
  The assignment \<open>t[..., lo:hi, ...] = src\<close> along dimension \<open>d\<close>: \<open>src\<close> must
  broadcast to the shape of the assigned region.
\<close>

definition set_narrow :: "nat \<Rightarrow> int \<Rightarrow> int \<Rightarrow> tensor \<Rightarrow> tensor \<Rightarrow> tensor option" where
  "set_narrow d lo hi t src =
     (if d < length (shape t)
      then let n = shape t ! d; a = slice_start n lo; l = slice_len n lo hi;
               region = (shape t)[d := l] in
        if bshape (shape src) region = Some region
        then Some \<lparr>shape = shape t,
                   el = (\<lambda>idx. if a \<le> idx ! d \<and> idx ! d < a + l
                               then el src (bidx (shape src) (idx[d := idx ! d - a]))
                               else el t idx)\<rparr>
        else None
      else None)"

text \<open>Reading \<open>t[..., i, ...]\<close> at position \<open>i\<close> of dimension \<open>d\<close>, which disappears.\<close>

definition select :: "nat \<Rightarrow> nat \<Rightarrow> tensor \<Rightarrow> tensor option" where
  "select d i t =
     (if d < length (shape t) \<and> i < shape t ! d
      then Some \<lparr>shape = take d (shape t) @ drop (Suc d) (shape t),
                 el = (\<lambda>idx. el t (take d idx @ [i] @ drop d idx))\<rparr>
      else None)"

text \<open>The assignment \<open>t[..., i, ...] = src\<close>.\<close>

definition set_select :: "nat \<Rightarrow> nat \<Rightarrow> tensor \<Rightarrow> tensor \<Rightarrow> tensor option" where
  "set_select d i t src =
     (if d < length (shape t) \<and> i < shape t ! d
      then let region = take d (shape t) @ drop (Suc d) (shape t) in
        if bshape (shape src) region = Some region
        then Some \<lparr>shape = shape t,
                   el = (\<lambda>idx. if idx ! d = i
                               then el src (bidx (shape src) (take d idx @ drop (Suc d) idx))
                               else el t idx)\<rparr>
        else None
      else None)"

text \<open>
  \<open>torch.roll(t, shifts, dims=d)\<close>: the entry at position \<open>j\<close> moves to position
  \<open>(j + shifts) mod n\<close>.
\<close>

definition roll :: "int \<Rightarrow> nat \<Rightarrow> tensor \<Rightarrow> tensor option" where
  "roll shifts d t =
     (if d < length (shape t)
      then Some \<lparr>shape = shape t,
                 el = (\<lambda>idx. el t (idx[d := nat ((int (idx ! d) - shifts) mod int (shape t ! d))]))\<rparr>
      else None)"

text \<open>A \<open>for\<close> loop over a list of indices, threading the state; it stops at the first error.\<close>

fun for_each :: "('a \<Rightarrow> 's \<Rightarrow> 's option) \<Rightarrow> 'a list \<Rightarrow> 's \<Rightarrow> 's option" where
  "for_each body [] s = Some s"
| "for_each body (i # is) s = (case body i s of None \<Rightarrow> None | Some s' \<Rightarrow> for_each body is s')"

section \<open>Dispersion shift\<close>

text \<open>
  \<open>shift_3d\<close>: the input is copied into the first \<open>W\<close> columns of a zero tensor of width
  \<open>W + (C - 1) * step\<close>, and band \<open>i\<close> is rolled by \<open>step * i\<close> along the width.
  \<open>shift_3d_band\<close> is the body of the loop over the bands.
\<close>

definition shift_3d_band :: "int \<Rightarrow> nat \<Rightarrow> tensor \<Rightarrow> tensor option" where
  "shift_3d_band step i temp = do {
     band \<leftarrow> select 1 i temp;
     r \<leftarrow> roll (step * int i) 2 band;
     set_select 1 i temp r
   }"

definition shift_3d :: "tensor \<Rightarrow> int \<Rightarrow> tensor option" where
  "shift_3d inputs step =
     (case shape inputs of
        [B, C, H, W] \<Rightarrow> do {
          temp \<leftarrow> zeros [int B, int C, int H, int W + (int C - 1) * step];
          temp \<leftarrow> set_narrow 3 0 (int W) temp inputs;
          for_each (shift_3d_band step) [0..<C] temp
        }
      | _ \<Rightarrow> None)"

text \<open>
  \<open>shift_back_3d\<close>: band \<open>i\<close> is rolled by \<open>- step * i\<close>. The source overwrites its
  argument; the model returns the new tensor.
\<close>

definition shift_back_3d_band :: "int \<Rightarrow> nat \<Rightarrow> tensor \<Rightarrow> tensor option" where
  "shift_back_3d_band step i inputs = do {
     band \<leftarrow> select 1 i inputs;
     r \<leftarrow> roll ((- 1) * step * int i) 2 band;
     set_select 1 i inputs r
   }"

definition shift_back_3d :: "tensor \<Rightarrow> int \<Rightarrow> tensor option" where
  "shift_back_3d inputs step =
     (case shape inputs of
        [bs, nC, row, col] \<Rightarrow> for_each (shift_back_3d_band step) [0..<nC] inputs
      | _ \<Rightarrow> None)"

section \<open>Further tensor operations\<close>

text \<open>
  An elementwise function of one tensor (\<open>Phi**2\<close>, \<open>relu\<close>, a product with a scalar).
\<close>

definition t_map :: "(real \<Rightarrow> real) \<Rightarrow> tensor \<Rightarrow> tensor" where
  "t_map f t = \<lparr>shape = shape t, el = (\<lambda>idx. f (el t idx))\<rparr>"

text \<open>
  \<open>torch.ones(dims)\<close>.
\<close>

definition ones :: "int list \<Rightarrow> tensor option" where
  "ones dims =
     (if \<exists>d \<in> set dims. d < 0 then None
      else Some \<lparr>shape = map nat dims, el = (\<lambda>idx. 1)\<rparr>)"

text \<open>
  \<open>torch.cat([a, b], dim=d)\<close>: the shapes agree outside dimension \<open>d\<close>.
\<close>

definition cat :: "nat \<Rightarrow> tensor \<Rightarrow> tensor \<Rightarrow> tensor option" where
  "cat d a b =
     (if d < length (shape a) \<and> length (shape a) = length (shape b) \<and>
         (shape a)[d := 0] = (shape b)[d := 0]
      then Some \<lparr>shape = (shape a)[d := shape a ! d + shape b ! d],
                 el = (\<lambda>idx. if idx ! d < shape a ! d then el a idx
                             else el b (idx[d := idx ! d - shape a ! d]))\<rparr>
      else None)"

text \<open>
  \<open>t.repeat(*reps)\<close> in general: there may be more repetition counts than dimensions, and
  the shape is then filled with leading 1s; fewer counts raise.
\<close>

definition repeat_n :: "nat list \<Rightarrow> tensor \<Rightarrow> tensor option" where
  "repeat_n reps t =
     (if length reps < length (shape t) then None
      else let k = length reps - length (shape t); s = replicate k 1 @ shape t in
        Some \<lparr>shape = map2 (*) reps s,
              el = (\<lambda>idx. el t (drop k (map2 (\<lambda>i d. i mod d) idx s)))\<rparr>)"

text \<open>
  \<open>nn.AdaptiveAvgPool2d(1)\<close>: the mean over the two spatial dimensions.
\<close>

definition avg_pool :: "tensor \<Rightarrow> tensor option" where
  "avg_pool x =
     (case shape x of
        [B, C, H, W] \<Rightarrow>
          if H = 0 \<or> W = 0 then None
          else Some \<lparr>shape = [B, C, 1, 1],
                     el = (\<lambda>idx. (\<Sum>h < H. \<Sum>w < W. el x [idx ! 0, idx ! 1, h, w])
                                   / real (H * W))\<rparr>
      | _ \<Rightarrow> None)"

text \<open>
  \<open>nn.ReLU\<close> and \<open>nn.Softplus\<close> (with its defaults: linear above the threshold 20).
\<close>

definition relu :: "real \<Rightarrow> real" where
  "relu v = max 0 v"

definition softplus :: "real \<Rightarrow> real" where
  "softplus v = (if v > 20 then v else ln (1 + exp v))"

text \<open>
  Python list indexing: a negative index counts from the end, out of range raises.
\<close>

definition py_index :: "'a list \<Rightarrow> int \<Rightarrow> 'a option" where
  "py_index xs i =
     (let n = int (length xs); j = (if i < 0 then n + i else i)
      in if 0 \<le> j \<and> j < n then Some (xs ! nat j) else None)"

section \<open>Configuration and modules\<close>

text \<open>
  The configuration entries the unfolding loop reads.
\<close>

record config =
  STAGE :: int
  SHARE_PARAMS :: bool
  WITH_DL :: bool
  WITH_MU :: bool
  WITH_NOISE_LEVEL :: bool
  WAVE_LENS :: nat
  STEP :: int

text \<open>
  The constructor of \<open>CAUN\<close> builds one module per stage (a \<open>ModuleList\<close>, indexed in
  \<open>forward\<close>) unless \<open>SHARE_PARAMS\<close> is set, where it builds a single module (called in
  \<open>forward\<close>). Indexing a single module or calling a list raises.
\<close>

datatype 'm stages = PerStage "'m list" | Shared 'm

definition stage_module :: "config \<Rightarrow> 'm stages \<Rightarrow> nat \<Rightarrow> 'm option" where
  "stage_module c ms i =
     (case ms of
        PerStage xs \<Rightarrow> if \<not> SHARE_PARAMS c then py_index xs (int i) else None
      | Shared x \<Rightarrow> if \<not> SHARE_PARAMS c then None else Some x)"

text \<open>
  The layers of \<open>DADN\<close>. Their weights are learned, so each convolutional stack is a
  parameter of the model: \<open>DL\<close>, \<open>down_sample\<close> and the layers of \<open>mlp\<close> before its
  final \<open>Softplus\<close>.
\<close>

record DADN =
  DL :: "tensor \<Rightarrow> tensor option"
  down_sample :: "tensor \<Rightarrow> tensor option"
  mlp_convs :: "tensor \<Rightarrow> tensor option"

text \<open>
  \<open>DADN.forward(y, phi)\<close>. The refined mask is a new tensor \<open>phi + phi_r\<close>; the in-place
  \<open>ReLU\<close> acts on \<open>phi_r\<close>, after that sum was taken. \<open>x[:, 0, :, :]\<close> and
  \<open>x[:, 1, :, :]\<close> need four dimensions, \<open>noise_level[:, None, :, :]\<close> three.
\<close>

definition DADN_forward :: "DADN \<Rightarrow> tensor \<Rightarrow> tensor \<Rightarrow> (tensor \<times> tensor \<times> tensor) option" where
  "DADN_forward m y phi = do {
     inp \<leftarrow> cat 1 phi y;
     phi_r \<leftarrow> DL m inp;
     phi' \<leftarrow> t_add phi phi_r;
     x \<leftarrow> down_sample m (t_map relu phi_r);
     x \<leftarrow> avg_pool x;
     x \<leftarrow> mlp_convs m x;
     x \<leftarrow> Some (t_map (\<lambda>v. softplus v + 1 / 1000000) x);
     mu \<leftarrow> (if length (shape x) < 4 then None else select 1 0 x);
     noise_level \<leftarrow> (if length (shape x) < 4 then None else select 1 1 x);
     nl \<leftarrow> (if length (shape noise_level) < 3 then None else unsqueeze 1 noise_level);
     Some (phi', mu, nl)
   }"

text \<open>
  The module \<open>CAUN\<close>: its configuration, the fusion convolution, the degradation
  networks \<open>DP\<close> and the prior networks \<open>PP\<close> (each \<open>LNLT\<close> is a parameter of the
  model).
\<close>

record CAUN =
  cfg :: config
  fusion :: "tensor \<Rightarrow> tensor option"
  DP :: "DADN stages"
  PP :: "(tensor \<Rightarrow> tensor option) stages"

section \<open>The unfolding loop\<close>

text \<open>
  \<open>CAUN.initial\<close>. The body of its loop assigns a slice of the measurement to the same
  slice of band \<open>i\<close> of \<open>y_shift\<close>; \<open>y[:, :, lo:hi]\<close> needs three dimensions.
\<close>

definition initial_band :: "int \<Rightarrow> nat \<Rightarrow> nat \<Rightarrow> tensor \<Rightarrow> nat \<Rightarrow> tensor \<Rightarrow> tensor option" where
  "initial_band step nC col y i y_shift =
     (let lo = step * int i; hi = step * int i + int col - (int nC - 1) * step in
      if length (shape y) < 3 then None
      else do {
        src \<leftarrow> narrow 2 lo hi y;
        band \<leftarrow> select 1 i y_shift;
        band \<leftarrow> set_narrow 2 lo hi band src;
        set_select 1 i y_shift band
      })"

definition initial :: "CAUN \<Rightarrow> tensor \<Rightarrow> tensor \<Rightarrow> tensor option" where
  "initial m y Phi =
     (let step = STEP (cfg m) in
      case shape Phi of
        [bs, nC, row, col] \<Rightarrow> do {
          y_shift \<leftarrow> zeros [int bs, int nC, int row, int col];
          y_shift \<leftarrow> for_each (initial_band step nC col y) [0..<nC] y_shift;
          inp \<leftarrow> cat 1 y_shift Phi;
          fusion m inp
        }
      | _ \<Rightarrow> None)"

text \<open>
  The variables the loop of \<open>forward_test\<close> carries from one stage to the next.
\<close>

record loop_state =
  phi :: tensor
  z :: tensor
  z_hat :: tensor
  z_list :: "tensor list"

text \<open>
  Lines 755 to 760 of \<open>forward_test\<close>: the degradation network of stage \<open>i\<close> and the two
  overrides of the configuration.
\<close>

definition degradation :: "CAUN \<Rightarrow> nat \<Rightarrow> tensor \<Rightarrow> tensor \<Rightarrow> (tensor \<times> tensor \<times> tensor) option" where
  "degradation m i zc ph = do {
     dp \<leftarrow> stage_module (cfg m) (DP m) i;
     (Phi, mu, noise_level) \<leftarrow> DADN_forward dp zc ph;
     Phi \<leftarrow> Some (if \<not> WITH_DL (cfg m) then ph else Phi);
     mu \<leftarrow> Some (if \<not> WITH_MU (cfg m) then tensor_of [1] [1 / 1000000] else mu);
     Some (Phi, mu, noise_level)
   }"

text \<open>
  Lines 762 and 763: \<open>Phi_s = torch.sum(Phi**2, 1)\<close>, then \<open>Phi_s[Phi_s==0] = 1\<close> (an
  in-place write to the tensor that was just created).
\<close>

definition Phi_s_of :: "tensor \<Rightarrow> tensor option" where
  "Phi_s_of Phi = do {
     Phi_s \<leftarrow> sum_dim 1 (t_map (\<lambda>v. v ^ 2) Phi);
     Some (t_map (\<lambda>v. if v = 0 then 1 else v) Phi_s)
   }"

text \<open>
  Lines 762 to 765: \<open>Phi_s\<close>, \<open>Phi_z = A(z_hat, Phi)\<close> and
  \<open>x = z + At(torch.div(y - Phi_z, mu + Phi_s), Phi)\<close>.
\<close>

definition gradient_step :: "tensor \<Rightarrow> tensor \<Rightarrow> tensor \<Rightarrow> tensor \<Rightarrow> tensor \<Rightarrow> tensor option" where
  "gradient_step y zc zh Phi mu = do {
     Phi_s \<leftarrow> Phi_s_of Phi;
     Phi_z \<leftarrow> A zh Phi;
     r \<leftarrow> t_sub y Phi_z;
     d \<leftarrow> t_add mu Phi_s;
     q \<leftarrow> t_div r d;
     a \<leftarrow> At q Phi;
     t_add zc a
   }"

text \<open>
  Lines 766 to 772: unshift and crop, the repeated noise level, the prior network of stage
  \<open>i\<close>, and the shift. Both shifts use the default step 2.
\<close>

definition prior_step :: "CAUN \<Rightarrow> nat \<Rightarrow> nat \<Rightarrow> tensor \<Rightarrow> tensor \<Rightarrow> tensor option" where
  "prior_step m i W_0 x noise_level = do {
     xb \<leftarrow> shift_back_3d x 2;
     x \<leftarrow> narrow 3 0 (int W_0) xb;
     noise_level_repeat \<leftarrow> repeat_n [1, 1, shape x ! 2, shape x ! 3] noise_level;
     pp \<leftarrow> stage_module (cfg m) (PP m) i;
     zn \<leftarrow> (if \<not> WITH_NOISE_LEVEL (cfg m) then pp x
            else do { inp \<leftarrow> cat 1 noise_level_repeat x; pp inp });
     shift_3d zn 2
   }"

text \<open>
  Line 774: \<open>z_hat = z + beta[i] * (z_list[-1] - z_list[-2])\<close>.
\<close>

definition momentum :: "tensor \<Rightarrow> nat \<Rightarrow> tensor \<Rightarrow> tensor list \<Rightarrow> tensor option" where
  "momentum beta i zn zs = do {
     b \<leftarrow> select 0 i beta;
     z1 \<leftarrow> py_index zs (- 1);
     z2 \<leftarrow> py_index zs (- 2);
     d \<leftarrow> t_sub z1 z2;
     p \<leftarrow> t_mul b d;
     t_add zn p
   }"

text \<open>
  One iteration of the loop.
\<close>

definition stage :: "CAUN \<Rightarrow> tensor \<Rightarrow> tensor \<Rightarrow> nat \<Rightarrow> nat \<Rightarrow> loop_state \<Rightarrow> loop_state option" where
  "stage m y beta W_0 i st = do {
     (Phi, mu, noise_level) \<leftarrow> degradation m i (z st) (phi st);
     x \<leftarrow> gradient_step y (z st) (z_hat st) Phi mu;
     zn \<leftarrow> prior_step m i W_0 x noise_level;
     zs \<leftarrow> Some (z_list st @ [zn]);
     zh \<leftarrow> momentum beta i zn zs;
     Some (st\<lparr>z := zn, z_hat := zh, z_list := zs\<rparr>)
   }"

text \<open>
  The input dictionary: the keys \<open>Y\<close>, \<open>mask\<close> and \<open>H\<close>.
\<close>

record data =
  data_Y :: tensor
  data_mask :: tensor
  data_H :: tensor

text \<open>
  \<open>forward_test\<close>. The state before the first stage, then
  \<open>beta = 0.5 * torch.ones((W, 1))\<close> and the loop over \<open>range(STAGE)\<close>, then the final
  unshift and the two crops.
\<close>

definition forward_test_init :: "CAUN \<Rightarrow> data \<Rightarrow> loop_state option" where
  "forward_test_init m dat = do {
     z0 \<leftarrow> initial m (data_Y dat) (data_mask dat);
     Some \<lparr>phi = data_mask dat, z = z0, z_hat = z0, z_list = [z0]\<rparr>
   }"

definition beta_of :: "nat \<Rightarrow> tensor option" where
  "beta_of W = map_option (t_map (\<lambda>v. 0.5 * v)) (ones [int W, 1])"

definition forward_test :: "CAUN \<Rightarrow> data \<Rightarrow> tensor option" where
  "forward_test m dat = do {
     st \<leftarrow> forward_test_init m dat;
     (case (shape (data_mask dat), shape (data_H dat)) of
        ([B, C, H, W], [B', C', H_0, W_0]) \<Rightarrow> do {
          beta \<leftarrow> beta_of W;
          st \<leftarrow> for_each (stage m (data_Y dat) beta W_0) [0..<nat (STAGE (cfg m))] st;
          zb \<leftarrow> shift_back_3d (z st) 2;
          zc \<leftarrow> narrow 3 0 (int W_0) zb;
          narrow 3 0 (int W_0) zc
        }
      | _ \<Rightarrow> None)
   }"

section \<open>The specification of the data-consistency step\<close>

text \<open>
  The specification's operators at one pixel. \<open>Forward\<close> multiplies the cube by the mask
  entry by entry and sums over the bands; \<open>Phi_s\<close> is the sum over the bands of the squared
  mask, with an exact zero replaced by 1.
\<close>

definition spec_Forward :: "tensor \<Rightarrow> tensor \<Rightarrow> nat \<Rightarrow> nat \<Rightarrow> nat \<Rightarrow> nat \<Rightarrow> real" where
  "spec_Forward x Phi C b h w = (\<Sum>n<C. el x [b, n, h, w] * el Phi [b, n, h, w])"

definition spec_Phi_s :: "tensor \<Rightarrow> nat \<Rightarrow> nat \<Rightarrow> nat \<Rightarrow> nat \<Rightarrow> real" where
  "spec_Phi_s Phi C b h w =
     (if (\<Sum>n<C. (el Phi [b, n, h, w]) ^ 2) = 0 then 1 else (\<Sum>n<C. (el Phi [b, n, h, w]) ^ 2))"

text \<open>
  The specification's gradient step at one entry:
  \<open>z + Adjoint((y - Forward(z_hat, Phi)) / (mu + Phi_s), Phi)\<close>, where the adjoint multiplies the
  plane by the mask entry of the band. The measurement and the step size are read where
  broadcasting reads them.
\<close>

definition data_consistency ::
  "tensor \<Rightarrow> tensor \<Rightarrow> tensor \<Rightarrow> tensor \<Rightarrow> tensor \<Rightarrow> nat \<Rightarrow> nat \<Rightarrow> nat \<Rightarrow> nat \<Rightarrow> nat \<Rightarrow> real" where
  "data_consistency y zc zh Phi mu C b c h w =
     el zc [b, c, h, w] +
     (el y (bidx (shape y) [b, h, w]) - spec_Forward zh Phi C b h w) /
       (el mu (bidx (shape mu) [b, h, w]) + spec_Phi_s Phi C b h w)
     * el Phi [b, c, h, w]"

section \<open>Shapes of the learned layers\<close>

text \<open>
  A learned layer is a parameter of the model. What the loop needs of it is that it accepts
  the shape it is given there and returns the shape the next operation expects.
\<close>

definition maps_shape :: "(tensor \<Rightarrow> tensor option) \<Rightarrow> nat list \<Rightarrow> nat list \<Rightarrow> bool" where
  "maps_shape f s s' = (\<forall>t. shape t = s \<longrightarrow> (\<exists>r. f t = Some r \<and> shape r = s'))"

text \<open>
  The layers of a degradation network on the shapes of \<open>DADN.forward\<close>: the strided
  convolution returns a map that is not empty, and the last layers return the two values
  per batch element.
\<close>

definition DADN_shapes :: "DADN \<Rightarrow> nat \<Rightarrow> nat \<Rightarrow> nat \<Rightarrow> nat \<Rightarrow> bool" where
  "DADN_shapes dp B C H W =
     (maps_shape (DL dp) [B, C + C, H, W] [B, C, H, W] \<and>
      (\<exists>C2 H2 W2. maps_shape (down_sample dp) [B, C, H, W] [B, C2, Suc H2, Suc W2] \<and>
                   maps_shape (mlp_convs dp) [B, C2, 1, 1] [B, 2, 1, 1]))"

text \<open>
  The shapes of the variables of the loop; the last entry of \<open>z_list\<close> is the current
  estimate.
\<close>

definition loop_inv :: "nat \<Rightarrow> nat \<Rightarrow> nat \<Rightarrow> nat \<Rightarrow> loop_state \<Rightarrow> bool" where
  "loop_inv B C H W st =
     (shape (phi st) = [B, C, H, W] \<and> shape (z st) = [B, C, H, W] \<and>
      shape (z_hat st) = [B, C, H, W] \<and> z_list st \<noteq> [] \<and> last (z_list st) = z st)"

text \<open>
  The modules of stage \<open>i\<close> exist and accept the shapes of the loop; the prior network gets
  one more channel when the noise level is concatenated.
\<close>

definition stage_nets :: "CAUN \<Rightarrow> nat \<Rightarrow> nat \<Rightarrow> nat \<Rightarrow> nat \<Rightarrow> nat \<Rightarrow> nat \<Rightarrow> bool" where
  "stage_nets m i B C H W W_0 =
     ((\<exists>dp. stage_module (cfg m) (DP m) i = Some dp \<and> DADN_shapes dp B C H W) \<and>
      (\<exists>pp. stage_module (cfg m) (PP m) i = Some pp \<and>
         maps_shape pp [B, (if WITH_NOISE_LEVEL (cfg m) then 1 + C else C), H, W_0] [B, C, H, W_0]))"

text \<open>
  The slices \<open>y[:, :, lo:hi]\<close> that \<open>initial\<close> reads can be assigned to the slices
  \<open>y_shift[:, i, :, lo:hi]\<close>: they broadcast to them.
\<close>

definition measurement_fits :: "int \<Rightarrow> nat \<Rightarrow> nat \<Rightarrow> nat \<Rightarrow> nat \<Rightarrow> nat list \<Rightarrow> bool" where
  "measurement_fits step B C H W sy =
     (case sy of
        [By, Hy, Wy] \<Rightarrow>
          (\<forall>i<C. let lo = step * int i; hi = step * int i + int W - (int C - 1) * step in
             bshape [By, Hy, slice_len Wy lo hi] [B, H, slice_len W lo hi]
               = Some [B, H, slice_len W lo hi])
      | _ \<Rightarrow> False)"

section \<open>A small instance\<close>

text \<open>
  A layer with all weights zero returns zeros. The instance below has one batch element, two
  bands, two rows and three columns; with all its weights zero the prior network returns
  its input. It shows that the hypotheses of the theorems below can be met.
\<close>

definition zero_net :: "nat list \<Rightarrow> tensor \<Rightarrow> tensor option" where
  "zero_net s t = Some \<lparr>shape = s, el = (\<lambda>idx. 0)\<rparr>"

definition example_cfg :: config where
  "example_cfg = \<lparr>STAGE = 1, SHARE_PARAMS = True, WITH_DL = False, WITH_MU = True,
         WITH_NOISE_LEVEL = False, WAVE_LENS = 2, STEP = 2\<rparr>"

definition example_net :: CAUN where
  "example_net = \<lparr>cfg = example_cfg, fusion = narrow 1 0 2,
         DP = Shared \<lparr>DL = zero_net [1, 2, 2, 3], down_sample = zero_net [1, 4, 1, 2],
               mlp_convs = zero_net [1, 2, 1, 1]\<rparr>,
         PP = Shared Some\<rparr>"

definition example_data :: data where
  "example_data = \<lparr>data_Y = tensor_of [1, 2, 3] [1, 2, 3, 4, 5, 6],
         data_mask = tensor_of [1, 2, 2, 3] [1, 0, 1, 0, 1, 1, 1, 1, 0, 1, 0, 1],
         data_H = tensor_of [1, 2, 2, 1] [0, 0, 0, 0]\<rparr>"

definition zero_mask_data :: data where
  "zero_mask_data = \<lparr>data_Y = tensor_of [1, 2, 3] [1, 2, 3, 4, 5, 6],
         data_mask = \<lparr>shape = [1, 2, 2, 3], el = (\<lambda>idx. 0)\<rparr>,
         data_H = tensor_of [1, 2, 2, 1] [0, 0, 0, 0]\<rparr>"


section \<open>Window attention\<close>

subsection \<open>Reshaping\<close>

text \<open>
  The index of the entry at position \<open>k\<close> of the row-major order of a tensor of shape
  \<open>s\<close>; the inverse of \<open>ravel\<close> on the valid indices.
\<close>

fun unravel :: "nat list \<Rightarrow> nat \<Rightarrow> nat list" where
  "unravel [] k = []"
| "unravel (n # s) k = (k div prod_list s) # unravel s (k mod prod_list s)"

text \<open>
  The tensor of shape \<open>s\<close> with the entries of \<open>t\<close> in the same row-major order.
\<close>

definition reshape_to :: "nat list \<Rightarrow> tensor \<Rightarrow> tensor" where
  "reshape_to s t = \<lparr>shape = s, el = (\<lambda>idx. el t (unravel (shape t) (ravel s idx)))\<rparr>"

text \<open>
  \<open>t.view(dims)\<close> and \<open>t.reshape(dims)\<close>: at most one dimension is \<open>-1\<close> and is inferred
  from the number of entries; a number of entries that does not fit raises. Every call of
  \<open>view\<close> in the source is on a tensor whose layout allows it: a contiguous tensor
  (\<open>permute\<close> is followed by \<open>contiguous()\<close> or by \<open>reshape\<close>), or a slice of the
  token dimension of which only that dimension is split; so the two agree.
\<close>

definition view :: "int list \<Rightarrow> tensor \<Rightarrow> tensor option" where
  "view dims t =
     (let n = prod_list (shape t);
          known = prod_list (map nat (filter (\<lambda>d. 0 \<le> d) dims)) in
      if filter (\<lambda>d. d < 0) dims = [] then
        (if known = n then Some (reshape_to (map nat dims) t) else None)
      else if filter (\<lambda>d. d < 0) dims = [- 1] then
        (if known \<noteq> 0 \<and> n mod known = 0
         then Some (reshape_to (map (\<lambda>d. if d < 0 then n div known else nat d) dims) t)
         else None)
      else None)"

text \<open>
  The position of dimension \<open>d\<close> in a permutation of the dimensions.
\<close>

definition position :: "nat list \<Rightarrow> nat \<Rightarrow> nat" where
  "position perm d = length (takeWhile (\<lambda>p. p \<noteq> d) perm)"

text \<open>
  \<open>t.permute(perm)\<close>: dimension \<open>i\<close> of the result is dimension \<open>perm ! i\<close> of \<open>t\<close>.
\<close>

definition permute :: "nat list \<Rightarrow> tensor \<Rightarrow> tensor option" where
  "permute perm t =
     (if length perm = length (shape t) \<and> distinct perm \<and>
         list_all (\<lambda>p. p < length (shape t)) perm
      then Some \<lparr>shape = map (\<lambda>p. shape t ! p) perm,
                 el = (\<lambda>idx. el t (map (\<lambda>d. idx ! position perm d) [0..<length perm]))\<rparr>
      else None)"

text \<open>
  \<open>t.transpose(d1, d2)\<close>; negative dimensions count from the end.
\<close>

definition transpose_dims :: "int \<Rightarrow> int \<Rightarrow> tensor \<Rightarrow> tensor option" where
  "transpose_dims d1 d2 t =
     (let r = int (length (shape t));
          a = (if d1 < 0 then d1 + r else d1); b = (if d2 < 0 then d2 + r else d2) in
      if 0 \<le> a \<and> a < r \<and> 0 \<le> b \<and> b < r
      then permute (([0..<nat r])[nat a := nat b, nat b := nat a]) t
      else None)"

text \<open>
  \<open>a @ b\<close> for tensors of rank at least 2: a matrix product over the last two dimensions,
  the leading (batch) dimensions broadcast.
\<close>

definition matmul :: "tensor \<Rightarrow> tensor \<Rightarrow> tensor option" where
  "matmul a b =
     (let ra = length (shape a); rb = length (shape b) in
      if ra < 2 \<or> rb < 2 then None
      else if last (shape a) \<noteq> shape b ! (rb - 2) then None
      else case bshape (take (ra - 2) (shape a)) (take (rb - 2) (shape b)) of
        None \<Rightarrow> None
      | Some batch \<Rightarrow>
          Some \<lparr>shape = batch @ [shape a ! (ra - 2), last (shape b)],
                el = (\<lambda>idx. let L = length idx; bi = take (L - 2) idx in
                       (\<Sum>k < last (shape a).
                          el a (bidx (take (ra - 2) (shape a)) bi @ [idx ! (L - 2), k]) *
                          el b (bidx (take (rb - 2) (shape b)) bi @ [k, idx ! (L - 1)])))\<rparr>)"

text \<open>
  \<open>t.softmax(dim=-1)\<close> over the real numbers.
\<close>

definition softmax :: "tensor \<Rightarrow> tensor option" where
  "softmax t =
     (if shape t = [] then None
      else Some \<lparr>shape = shape t,
                 el = (\<lambda>idx. exp (el t idx) /
                         (\<Sum>j < last (shape t). exp (el t (idx[length idx - 1 := j]))))\<rparr>)"

text \<open>
  \<open>nn.Linear\<close>: a weight of shape \<open>[out, in]\<close> and an optional bias of shape \<open>[out]\<close>.
\<close>

record linear =
  weight :: tensor
  bias :: "tensor option"

text \<open>
  The layer is applied to the last dimension.
\<close>

definition apply_linear :: "linear \<Rightarrow> tensor \<Rightarrow> tensor option" where
  "apply_linear l x =
     (case shape (weight l) of
        [n_out, n_in] \<Rightarrow>
          if shape x = [] \<or> last (shape x) \<noteq> n_in then None
          else if (case bias l of None \<Rightarrow> False | Some b \<Rightarrow> shape b \<noteq> [n_out]) then None
          else Some \<lparr>shape = butlast (shape x) @ [n_out],
                     el = (\<lambda>idx. (\<Sum>i < n_in. el x (butlast idx @ [i]) * el (weight l) [last idx, i])
                               + (case bias l of None \<Rightarrow> 0 | Some b \<Rightarrow> el b [last idx]))\<rparr>
      | _ \<Rightarrow> None)"

text \<open>
  \<open>F.pad(t, pads)\<close> with zeros: the pairs (before, after) are given from the last
  dimension backwards.
\<close>

definition F_pad :: "(nat \<times> nat) list \<Rightarrow> tensor \<Rightarrow> tensor option" where
  "F_pad pads t =
     (let r = length (shape t);
          p = (\<lambda>d. if r - 1 - d < length pads then pads ! (r - 1 - d) else (0, 0)) in
      if r < length pads then None
      else Some \<lparr>shape = map (\<lambda>d. shape t ! d + fst (p d) + snd (p d)) [0..<r],
                 el = (\<lambda>idx. if list_all (\<lambda>d. fst (p d) \<le> idx ! d \<and> idx ! d < fst (p d) + shape t ! d) [0..<r]
                             then el t (map (\<lambda>d. idx ! d - fst (p d)) [0..<r]) else 0)\<rparr>)"

text \<open>
  \<open>t[rows]\<close> for a list of row numbers: one row of \<open>t\<close> per entry of the list; a row
  number out of range raises.
\<close>

definition index_rows :: "nat list \<Rightarrow> tensor \<Rightarrow> tensor option" where
  "index_rows rows t =
     (case shape t of
        [] \<Rightarrow> None
      | n # s \<Rightarrow> if list_all (\<lambda>i. i < n) rows
                 then Some \<lparr>shape = length rows # s,
                            el = (\<lambda>idx. el t ((rows ! (idx ! 0)) # tl idx))\<rparr>
                 else None)"

subsection \<open>Relative position index\<close>

text \<open>
  \<open>coords_flatten[c, n]\<close> of \<open>get_relative_position_index\<close>: the row (\<open>c = 0\<close>) or the
  column (\<open>c = 1\<close>) of token \<open>n\<close> of a window, in row-major order.
\<close>

definition coords_flatten :: "nat \<Rightarrow> nat \<Rightarrow> nat \<Rightarrow> int" where
  "coords_flatten win_w c n = (if c = 0 then int (n div win_w) else int (n mod win_w))"

text \<open>
  \<open>get_relative_position_index(win_h, win_w).view(-1)\<close>: for the pair of tokens
  \<open>(n, m)\<close>, the row offset shifted by \<open>win_h - 1\<close> and multiplied by \<open>2 * win_w - 1\<close>, plus
  the column offset shifted by \<open>win_w - 1\<close>; flattened row by row.
\<close>

definition get_relative_position_index :: "nat \<Rightarrow> nat \<Rightarrow> nat list" where
  "get_relative_position_index win_h win_w =
     concat (map (\<lambda>n. map (\<lambda>m.
        nat ((coords_flatten win_w 0 n - coords_flatten win_w 0 m + (int win_h - 1)) * (2 * int win_w - 1)
             + (coords_flatten win_w 1 n - coords_flatten win_w 1 m + (int win_w - 1))))
        [0..<win_h * win_w]) [0..<win_h * win_w])"

subsection \<open>The attention module\<close>

text \<open>
  The parameters and buffers of \<open>Attention\<close>. \<open>scale\<close> is \<open>qk_scale\<close> or
  \<open>head_dim ** -0.5\<close>; the dropout layers are the identity (\<open>attn_drop = 0\<close>,
  \<open>proj_drop = 0\<close>).
\<close>

record Attention =
  num_heads :: nat
  num_tokens :: nat
  window_size :: nat
  scale :: real
  qkv :: linear
  kv_global :: linear
  proj :: linear
  relative_position_bias_table :: tensor
  relative_position_index :: "nat list"

text \<open>
  \<open>_get_relative_positional_bias\<close>: the rows of the bias table selected by the index buffer,
  as a tensor of shape \<open>[1, heads, area, area]\<close>.
\<close>

definition get_relative_positional_bias :: "Attention \<Rightarrow> tensor option" where
  "get_relative_positional_bias m = do {
     let attn_area = window_size m * window_size m;
     b \<leftarrow> index_rows (relative_position_index m) (relative_position_bias_table m);
     b \<leftarrow> view [int attn_area, int attn_area, - 1] b;
     b \<leftarrow> permute [2, 0, 1] b;
     unsqueeze 0 b
   }"

text \<open>
  The partition into windows at the start of \<open>forward_local\<close>, the same three calls for
  \<open>q\<close>, \<open>k\<close> and \<open>v\<close>.
\<close>

definition window_partition :: "nat \<Rightarrow> nat \<Rightarrow> nat \<Rightarrow> nat \<Rightarrow> nat \<Rightarrow> nat \<Rightarrow> tensor \<Rightarrow> tensor option" where
  "window_partition B nh h_group w_group ws C t = do {
     t \<leftarrow> view [int B, int nh, int h_group, int ws, int w_group, int ws, - 1] t;
     t \<leftarrow> permute [0, 2, 4, 1, 3, 5, 6] t;
     view [- 1, int nh, int (ws * ws), int C] t
   }"

text \<open>
  \<open>window_reverse(windows, original_size, window_size)\<close>.
\<close>

definition window_reverse :: "tensor \<Rightarrow> nat \<times> nat \<Rightarrow> nat \<times> nat \<Rightarrow> tensor option" where
  "window_reverse windows original_size ws2 =
     (case (original_size, ws2) of ((H, W), (w0, w1)) \<Rightarrow>
        if shape windows = [] \<or> w0 = 0 \<or> w1 = 0 \<or> H * W = 0 then None
        else do {
          let B = nat \<lfloor>real (shape windows ! 0) / (real (H * W) / real w0 / real w1)\<rfloor>;
          output \<leftarrow> view [int B, int (H div w0), int (W div w1), int w0, int w1, - 1] windows;
          output \<leftarrow> permute [0, 1, 3, 2, 4, 5] output;
          view [int B, int (H * W), - 1] output
        })"

text \<open>
  The body shared by the three attention passes: the scaled products of queries and keys,
  the positional bias where there is one, the softmax over the keys and the weighted sum of
  the values, with the head dimension moved behind the token dimension.
\<close>

definition attention_core :: "real \<Rightarrow> tensor option \<Rightarrow> tensor \<Rightarrow> tensor \<Rightarrow> tensor \<Rightarrow> tensor option" where
  "attention_core sc pos_bias q k v = do {
     kt \<leftarrow> transpose_dims (- 2) (- 1) k;
     attn \<leftarrow> matmul q kt;
     attn \<leftarrow> Some (t_map (\<lambda>a. a * sc) attn);
     attn \<leftarrow> (case pos_bias of None \<Rightarrow> Some attn | Some pb \<Rightarrow> t_add attn pb);
     attn \<leftarrow> softmax attn;
     x \<leftarrow> matmul attn v;
     transpose_dims 1 2 x
   }"

text \<open>
  \<open>Attention.forward_local\<close>.
\<close>

definition forward_local :: "Attention \<Rightarrow> tensor \<Rightarrow> tensor \<Rightarrow> tensor \<Rightarrow> nat \<Rightarrow> nat \<Rightarrow> tensor option" where
  "forward_local m q k v H W =
     (case shape q of
        [B, nh, N, C] \<Rightarrow>
          let ws = window_size m in
          if ws = 0 then None
          else do {
            let h_group = H div ws;
            let w_group = W div ws;
            qw \<leftarrow> window_partition B nh h_group w_group ws C q;
            kw \<leftarrow> window_partition B nh h_group w_group ws C k;
            vw \<leftarrow> (if shape v = [] then None
                   else window_partition B nh h_group w_group ws (last (shape v)) v);
            pos_bias \<leftarrow> get_relative_positional_bias m;
            x \<leftarrow> attention_core (scale m) (Some pos_bias) qw kw vw;
            x \<leftarrow> view [int (shape vw ! 0), int (ws * ws), - 1] x;
            window_reverse x (H, W) (ws, ws)
          }
      | _ \<Rightarrow> None)"

text \<open>
  \<open>Attention.forward_global_aggregation\<close>.
\<close>

definition forward_global_aggregation :: "Attention \<Rightarrow> tensor \<Rightarrow> tensor \<Rightarrow> tensor \<Rightarrow> tensor option" where
  "forward_global_aggregation m q k v =
     (case shape q of
        [B, nh, N, C] \<Rightarrow> do {
          x \<leftarrow> attention_core (scale m) None q k v;
          view [int B, int N, - 1] x
        }
      | _ \<Rightarrow> None)"

text \<open>
  \<open>Attention.forward_global_broadcast\<close>.
\<close>

definition forward_global_broadcast :: "Attention \<Rightarrow> tensor \<Rightarrow> tensor \<Rightarrow> tensor \<Rightarrow> tensor option" where
  "forward_global_broadcast m q k v =
     (case shape q of
        [B, nh, N, C] \<Rightarrow> do {
          x \<leftarrow> attention_core (scale m) None q k v;
          view [int B, int N, - 1] x
        }
      | _ \<Rightarrow> None)"

text \<open>
  \<open>t.reshape(B, heads, Hp, Wp, -1)[:, :, :H, :W].reshape(B, heads, H*W, -1)\<close>.
\<close>

definition crop_tokens :: "nat \<Rightarrow> nat \<Rightarrow> nat \<Rightarrow> nat \<Rightarrow> nat \<Rightarrow> nat \<Rightarrow> tensor \<Rightarrow> tensor option" where
  "crop_tokens B nh Hp Wp H W t = do {
     t \<leftarrow> view [int B, int nh, int Hp, int Wp, - 1] t;
     t \<leftarrow> narrow 2 0 (int H) t;
     t \<leftarrow> narrow 3 0 (int W) t;
     view [int B, int nh, int (H * W), - 1] t
   }"

text \<open>
  \<open>t.view(B, -1, parts, heads, hdim).permute(2, 0, 3, 1, 4).unbind(0)\<close>.
\<close>

definition split_heads :: "nat \<Rightarrow> nat \<Rightarrow> nat \<Rightarrow> nat \<Rightarrow> tensor \<Rightarrow> tensor list option" where
  "split_heads B parts nh hdim t = do {
     t \<leftarrow> view [int B, - 1, int parts, int nh, int hdim] t;
     t \<leftarrow> permute [2, 0, 3, 1, 4] t;
     those (map (\<lambda>i. select 0 i t) [0..<parts])
   }"

text \<open>
  \<open>Attention.forward\<close>, with the local pass as a parameter so that it can be compared
  with another local pass on the same padded tokens.
\<close>

definition Attention_forward_with ::
  "(tensor \<Rightarrow> tensor \<Rightarrow> tensor \<Rightarrow> nat \<Rightarrow> nat \<Rightarrow> tensor option) \<Rightarrow>
   Attention \<Rightarrow> tensor \<Rightarrow> nat \<Rightarrow> nat \<Rightarrow> tensor option" where
  "Attention_forward_with local m x H W =
     (case shape x of
        [B, N, C] \<Rightarrow>
          let NC = num_tokens m; ws = window_size m in
          if ws = 0 \<or> num_heads m = 0 then None
          else do {
            x_img \<leftarrow> narrow 1 (int NC) (int N) x;
            x_global \<leftarrow> narrow 1 0 (int NC) x;
            x_img \<leftarrow> view [int B, int H, int W, int C] x_img;
            let pad_r = (ws - W mod ws) mod ws;
            let pad_b = (ws - H mod ws) mod ws;
            x_img \<leftarrow> F_pad [(0, 0), (0, pad_r), (0, pad_b)] x_img;
            let Hp = shape x_img ! 1;
            let Wp = shape x_img ! 2;
            x_img \<leftarrow> view [int B, - 1, int C] x_img;
            x \<leftarrow> cat 1 x_global x_img;
            qkv_out \<leftarrow> apply_linear (qkv m) x;
            qkv3 \<leftarrow> split_heads B 3 (num_heads m) (C div num_heads m) qkv_out;
            let q = qkv3 ! 0;
            let k = qkv3 ! 1;
            let v = qkv3 ! 2;
            q_img \<leftarrow> narrow 2 (int NC) (int (shape q ! 2)) q;
            k_img \<leftarrow> narrow 2 (int NC) (int (shape k ! 2)) k;
            v_img \<leftarrow> narrow 2 (int NC) (int (shape v ! 2)) v;
            q_cls \<leftarrow> narrow 2 0 (int NC) q;
            x_img \<leftarrow> local q_img k_img v_img Hp Wp;
            x_img \<leftarrow> view [int B, int Hp, int Wp, - 1] x_img;
            x_img \<leftarrow> narrow 1 0 (int H) x_img;
            x_img \<leftarrow> narrow 2 0 (int W) x_img;
            x_img \<leftarrow> view [int B, int (H * W), - 1] x_img;
            q_img \<leftarrow> crop_tokens B (num_heads m) Hp Wp H W q_img;
            k_img \<leftarrow> crop_tokens B (num_heads m) Hp Wp H W k_img;
            v_img \<leftarrow> crop_tokens B (num_heads m) Hp Wp H W v_img;
            x_cls \<leftarrow> forward_global_aggregation m q_cls k_img v_img;
            kv_out \<leftarrow> apply_linear (kv_global m) x_cls;
            kv2 \<leftarrow> split_heads B 2 (num_heads m) (C div num_heads m) kv_out;
            let k_cls = kv2 ! 0;
            let v_cls = kv2 ! 1;
            bc \<leftarrow> forward_global_broadcast m q_img k_cls v_cls;
            x_img \<leftarrow> t_add x_img bc;
            x \<leftarrow> cat 1 x_cls x_img;
            apply_linear (proj m) x
          }
      | _ \<Rightarrow> None)"

text \<open>
  \<open>Attention.forward\<close> itself.
\<close>

definition Attention_forward :: "Attention \<Rightarrow> tensor \<Rightarrow> nat \<Rightarrow> nat \<Rightarrow> tensor option" where
  "Attention_forward m = Attention_forward_with (forward_local m) m"

subsection \<open>Full attention\<close>

text \<open>
  The specification of unwindowed attention, entry by entry. The logit of query token
  \<open>n\<close> and key token \<open>i\<close> in head \<open>h\<close>: the scaled inner product plus the entry of the
  bias table at the relative position index of the pair.
\<close>

definition spec_attention_logit ::
  "Attention \<Rightarrow> tensor \<Rightarrow> tensor \<Rightarrow> nat \<Rightarrow> nat \<Rightarrow> nat \<Rightarrow> nat \<Rightarrow> real" where
  "spec_attention_logit m q k b h n i =
     (\<Sum>d < shape q ! 3. el q [b, h, n, d] * el k [b, h, i, d]) * scale m
     + el (relative_position_bias_table m) [relative_position_index m ! (n * (shape q ! 2) + i), h]"

text \<open>
  Entry \<open>j\<close> of output token \<open>n\<close>: with \<open>Cv\<close> value channels per head, head
  \<open>j div Cv\<close> and channel \<open>j mod Cv\<close>; the softmax over all tokens weights their values.
\<close>

definition spec_full_attention ::
  "Attention \<Rightarrow> tensor \<Rightarrow> tensor \<Rightarrow> tensor \<Rightarrow> nat \<Rightarrow> nat \<Rightarrow> nat \<Rightarrow> real" where
  "spec_full_attention m q k v b n j =
     (let N = shape q ! 2; Cv = shape v ! 3; h = j div Cv; c = j mod Cv in
      \<Sum>i < N. exp (spec_attention_logit m q k b h n i)
                / (\<Sum>i' < N. exp (spec_attention_logit m q k b h n i'))
                * el v [b, h, i, c])"

subsection \<open>An attention module with one head\<close>

text \<open>
  One channel, one head, one global token and windows of 2 by 2 tokens. Queries and keys
  are zero, the value of a token is the token, the bias table is zero and the output
  projection is the identity.
\<close>

definition example_attention :: Attention where
  "example_attention =
     \<lparr>num_heads = 1, num_tokens = 1, window_size = 2, scale = 1,
      qkv = \<lparr>weight = tensor_of [3, 1] [0, 0, 1], bias = None\<rparr>,
      kv_global = \<lparr>weight = tensor_of [2, 1] [0, 0], bias = None\<rparr>,
      proj = \<lparr>weight = tensor_of [1, 1] [1], bias = Some (tensor_of [1] [0])\<rparr>,
      relative_position_bias_table = \<lparr>shape = [9, 1], el = (\<lambda>idx. 0)\<rparr>,
      relative_position_index = get_relative_position_index 2 2\<rparr>"

text \<open>
  Four tokens of one channel.
\<close>

definition example_tokens :: tensor where
  "example_tokens = tensor_of [1, 1, 4, 1] [1, 2, 3, 4]"

section \<open>The local and non-local block\<close>

text \<open>
  The two kinds of module a sub-block of \<open>LocalNonLocalBlock\<close> holds: \<open>nn.Identity()\<close>,
  and \<open>PreNorm\<close> with its normalisation and the wrapped module (\<open>SGLB\<close> or the
  feed-forward network), which are learned layers and parameters of the model.
\<close>

datatype layer = Identity | PreNorm "tensor \<Rightarrow> tensor option" "tensor \<Rightarrow> tensor option"

text \<open>
  The \<open>forward\<close> of the module: \<open>nn.Identity\<close> returns its argument, \<open>PreNorm\<close>
  normalises and applies the wrapped module.
\<close>

fun apply_layer :: "layer \<Rightarrow> tensor \<Rightarrow> tensor option" where
  "apply_layer Identity x = Some x"
| "apply_layer (PreNorm nrm f) x = do { x \<leftarrow> nrm x; f x }"

text \<open>
  The module list built by \<open>LocalNonLocalBlock.__init__\<close>: per block, the attention
  module is \<open>PreNorm(dim, SGLB(...))\<close> if \<open>cfg.MODEL.DENOISER.CAUN.NON_LOCAL\<close> and
  \<open>nn.Identity()\<close> otherwise, and the feed-forward module is \<open>PreNorm(dim, FFN_FN(...))\<close>.
\<close>

definition LocalNonLocalBlock_init ::
  "bool \<Rightarrow> nat \<Rightarrow> (nat \<Rightarrow> layer) \<Rightarrow> (nat \<Rightarrow> layer) \<Rightarrow> (layer \<times> layer) list" where
  "LocalNonLocalBlock_init NON_LOCAL num_blocks sglb ffn =
     map (\<lambda>i. (if NON_LOCAL then sglb i else Identity, ffn i)) [0..<num_blocks]"

text \<open>
  The first statement of the loop of \<open>LocalNonLocalBlock.forward\<close>:
  \<open>x = x + Attention(x)\<close>.
\<close>

definition attention_step :: "layer \<Rightarrow> tensor \<Rightarrow> tensor option" where
  "attention_step attention x = do { a \<leftarrow> apply_layer attention x; t_add x a }"

text \<open>
  The second statement: \<open>x = x + ffn(x)\<close>.
\<close>

definition ffn_step :: "layer \<Rightarrow> tensor \<Rightarrow> tensor option" where
  "ffn_step ffn x = do { a \<leftarrow> apply_layer ffn x; t_add x a }"

text \<open>
  One iteration of the loop.
\<close>

definition sub_block :: "layer \<times> layer \<Rightarrow> tensor \<Rightarrow> tensor option" where
  "sub_block blk x = do { x \<leftarrow> attention_step (fst blk) x; ffn_step (snd blk) x }"

text \<open>
  \<open>LocalNonLocalBlock.forward\<close>.
\<close>

definition LocalNonLocalBlock_forward :: "(layer \<times> layer) list \<Rightarrow> tensor \<Rightarrow> tensor option" where
  "LocalNonLocalBlock_forward blocks x = for_each sub_block blocks x"

text \<open>
  A block list with one block, built with \<open>NON_LOCAL\<close> false; the learned layers return
  their argument.
\<close>

definition example_layers :: "nat \<Rightarrow> layer" where
  "example_layers i = PreNorm Some Some"

definition example_blocks :: "(layer \<times> layer) list" where
  "example_blocks = LocalNonLocalBlock_init False 1 example_layers example_layers"

section \<open>Padding in the attention module\<close>

subsection \<open>The sections of the forward pass\<close>

text \<open>
  \<open>Attention.forward\<close> section by section, for the proofs about the local pass. The first
  section is everything before the call of \<open>forward_local\<close>: padding, the \<open>qkv\<close> layer
  and the split into image and global tokens. It returns the padded image tokens, the
  global queries and the padded height and width.
\<close>

definition attention_tokens ::
  "Attention \<Rightarrow> tensor \<Rightarrow> nat \<Rightarrow> nat \<Rightarrow> (tensor \<times> tensor \<times> tensor \<times> tensor \<times> nat \<times> nat) option" where
  "attention_tokens m x H W =
     (case shape x of
        [B, N, C] \<Rightarrow>
          let NC = num_tokens m; ws = window_size m in
          if ws = 0 \<or> num_heads m = 0 then None
          else do {
            x_img \<leftarrow> narrow 1 (int NC) (int N) x;
            x_global \<leftarrow> narrow 1 0 (int NC) x;
            x_img \<leftarrow> view [int B, int H, int W, int C] x_img;
            let pad_r = (ws - W mod ws) mod ws;
            let pad_b = (ws - H mod ws) mod ws;
            x_img \<leftarrow> F_pad [(0, 0), (0, pad_r), (0, pad_b)] x_img;
            let Hp = shape x_img ! 1;
            let Wp = shape x_img ! 2;
            x_img \<leftarrow> view [int B, - 1, int C] x_img;
            x \<leftarrow> cat 1 x_global x_img;
            qkv_out \<leftarrow> apply_linear (qkv m) x;
            qkv3 \<leftarrow> split_heads B 3 (num_heads m) (C div num_heads m) qkv_out;
            let q = qkv3 ! 0;
            let k = qkv3 ! 1;
            let v = qkv3 ! 2;
            q_img \<leftarrow> narrow 2 (int NC) (int (shape q ! 2)) q;
            k_img \<leftarrow> narrow 2 (int NC) (int (shape k ! 2)) k;
            v_img \<leftarrow> narrow 2 (int NC) (int (shape v ! 2)) v;
            q_cls \<leftarrow> narrow 2 0 (int NC) q;
            Some (q_img, k_img, v_img, q_cls, Hp, Wp)
          }
      | _ \<Rightarrow> None)"

text \<open>
  The section \<open># restore to the original size\<close> for the result of the local pass:
  \<open>x_img.view(B, Hp, Wp, -1)[:, :H, :W].reshape(B, H*W, -1)\<close>.
\<close>

definition restore_size :: "nat \<Rightarrow> nat \<Rightarrow> nat \<Rightarrow> nat \<Rightarrow> nat \<Rightarrow> tensor \<Rightarrow> tensor option" where
  "restore_size B Hp Wp H W x_img = do {
     x_img \<leftarrow> view [int B, int Hp, int Wp, - 1] x_img;
     x_img \<leftarrow> narrow 1 0 (int H) x_img;
     x_img \<leftarrow> narrow 2 0 (int W) x_img;
     view [int B, int (H * W), - 1] x_img
   }"

text \<open>
  The crop of the image tokens and the two global passes; it returns the aggregated global
  tokens and the broadcast term.
\<close>

definition attention_global ::
  "Attention \<Rightarrow> nat \<Rightarrow> nat \<Rightarrow> nat \<Rightarrow> nat \<Rightarrow> nat \<Rightarrow> nat \<Rightarrow>
   tensor \<Rightarrow> tensor \<Rightarrow> tensor \<Rightarrow> tensor \<Rightarrow> (tensor \<times> tensor) option" where
  "attention_global m B C Hp Wp H W q_img k_img v_img q_cls = do {
     q_img \<leftarrow> crop_tokens B (num_heads m) Hp Wp H W q_img;
     k_img \<leftarrow> crop_tokens B (num_heads m) Hp Wp H W k_img;
     v_img \<leftarrow> crop_tokens B (num_heads m) Hp Wp H W v_img;
     x_cls \<leftarrow> forward_global_aggregation m q_cls k_img v_img;
     kv_out \<leftarrow> apply_linear (kv_global m) x_cls;
     kv2 \<leftarrow> split_heads B 2 (num_heads m) (C div num_heads m) kv_out;
     let k_cls = kv2 ! 0;
     let v_cls = kv2 ! 1;
     bc \<leftarrow> forward_global_broadcast m q_img k_cls v_cls;
     Some (x_cls, bc)
   }"

text \<open>
  The last three statements: the sum of the local result and the broadcast term, the
  concatenation with the global tokens and the output projection.
\<close>

definition attention_output :: "Attention \<Rightarrow> tensor \<Rightarrow> tensor \<Rightarrow> tensor \<Rightarrow> tensor option" where
  "attention_output m x_cls x_img bc = do {
     x_img \<leftarrow> t_add x_img bc;
     x \<leftarrow> cat 1 x_cls x_img;
     apply_linear (proj m) x
   }"

subsection \<open>Local attention without the padded tokens\<close>

text \<open>
  The specification of a local pass in which the padded tokens take no part. Token \<open>n\<close>
  of the padded map lies in row \<open>n div Wp\<close> and column \<open>n mod Wp\<close>; \<open>window_token\<close> is its
  position inside its window, in the order of the relative position index.
\<close>

definition window_token :: "nat \<Rightarrow> nat \<Rightarrow> nat \<Rightarrow> nat" where
  "window_token ws Wp n = ((n div Wp) mod ws) * ws + (n mod Wp) mod ws"

text \<open>
  The keys of query token \<open>n\<close>: the tokens of its window that lie inside the original
  \<open>H\<close> by \<open>W\<close> map.
\<close>

definition real_keys :: "nat \<Rightarrow> nat \<Rightarrow> nat \<Rightarrow> nat \<Rightarrow> nat \<Rightarrow> nat \<Rightarrow> nat list" where
  "real_keys ws H W Hp Wp n =
     filter (\<lambda>i. i div Wp < H \<and> i mod Wp < W \<and>
                 (i div Wp) div ws = (n div Wp) div ws \<and> (i mod Wp) div ws = (n mod Wp) div ws)
       [0..<Hp * Wp]"

text \<open>
  The logit of a query and a key of one window: the scaled inner product plus the
  positional bias of the pair.
\<close>

definition spec_local_logit ::
  "Attention \<Rightarrow> tensor \<Rightarrow> tensor \<Rightarrow> nat \<Rightarrow> nat \<Rightarrow> nat \<Rightarrow> nat \<Rightarrow> nat \<Rightarrow> real" where
  "spec_local_logit m q k Wp b h n i =
     (\<Sum>d < shape q ! 3. el q [b, h, n, d] * el k [b, h, i, d]) * scale m
     + el (relative_position_bias_table m)
         [relative_position_index m
            ! (window_token (window_size m) Wp n * (window_size m * window_size m)
               + window_token (window_size m) Wp i), h]"

text \<open>
  The result has the shape of the result of \<open>forward_local\<close>; the softmax of a query runs
  over its real keys only.
\<close>

definition spec_forward_local ::
  "Attention \<Rightarrow> nat \<Rightarrow> nat \<Rightarrow> tensor \<Rightarrow> tensor \<Rightarrow> tensor \<Rightarrow> nat \<Rightarrow> nat \<Rightarrow> tensor option" where
  "spec_forward_local m H W q k v Hp Wp =
     (case shape q of
        [B, nh, N, C] \<Rightarrow>
          if shape v = [] then None
          else let Cv = last (shape v) in
            Some \<lparr>shape = [B, Hp * Wp, nh * Cv],
                  el = (\<lambda>idx. let b = idx ! 0; n = idx ! 1; j = idx ! 2;
                                 keys = real_keys (window_size m) H W Hp Wp n in
                          (\<Sum>i \<leftarrow> keys.
                              exp (spec_local_logit m q k Wp b (j div Cv) n i)
                              / (\<Sum>i' \<leftarrow> keys. exp (spec_local_logit m q k Wp b (j div Cv) n i'))
                              * el v [b, j div Cv, i, j mod Cv]))\<rparr>
      | _ \<Rightarrow> None)"

text \<open>
  \<open>Attention.forward\<close> with that local pass in place of \<open>forward_local\<close>.
\<close>

definition spec_Attention_forward :: "Attention \<Rightarrow> tensor \<Rightarrow> nat \<Rightarrow> nat \<Rightarrow> tensor option" where
  "spec_Attention_forward m x H W = Attention_forward_with (spec_forward_local m H W) m x H W"

text \<open>
  One global token and an image of one pixel with the value 4, which the module with
  windows of 2 by 2 pads to 2 by 2 tokens.
\<close>

definition example_x :: tensor where
  "example_x = tensor_of [1, 2, 1] [0, 4]"

subsection \<open>Results of a local pass that differ at padded positions only\<close>

text \<open>
  Two results of a local pass on \<open>Hp * Wp\<close> padded tokens have the same shape
  \<open>[B, Hp * Wp, D]\<close> and the same entries at the tokens of the original \<open>H\<close> by \<open>W\<close> map.
\<close>

definition agree_on_original ::
  "nat \<Rightarrow> nat \<Rightarrow> nat \<Rightarrow> nat \<Rightarrow> nat \<Rightarrow> tensor \<Rightarrow> tensor \<Rightarrow> bool" where
  "agree_on_original B H W Hp Wp L1 L2 =
     (shape L1 = [B, Hp * Wp, shape L1 ! 2] \<and> shape L2 = shape L1 \<and>
      (\<forall>b \<in> {..<B}. \<forall>y \<in> {..<H}. \<forall>x \<in> {..<W}. \<forall>j \<in> {..<shape L1 ! 2}.
         el L1 [b, y * Wp + x, j] = el L2 [b, y * Wp + x, j]))"

text \<open>
  A local pass followed by overwriting the entries of its result at the padded tokens with
  the constant \<open>c\<close>.
\<close>

definition overwrite_padded ::
  "nat \<Rightarrow> nat \<Rightarrow> real \<Rightarrow> (tensor \<Rightarrow> tensor \<Rightarrow> tensor \<Rightarrow> nat \<Rightarrow> nat \<Rightarrow> tensor option) \<Rightarrow>
   tensor \<Rightarrow> tensor \<Rightarrow> tensor \<Rightarrow> nat \<Rightarrow> nat \<Rightarrow> tensor option" where
  "overwrite_padded H W c local q k v Hp Wp =
     map_option
       (\<lambda>t. \<lparr>shape = shape t,
              el = (\<lambda>idx. if (idx ! 1) div Wp < H \<and> (idx ! 1) mod Wp < W then el t idx else c)\<rparr>)
       (local q k v Hp Wp)"

section \<open>Lemmas on tensors\<close>

declare indices.simps [simp del]

lemma sum_list_concat_map:
  "sum_list (concat xss) = sum_list (map sum_list xss)"
  by (induction xss) auto

lemma sum_list_indices_Cons:
  "sum_list (map f (indices (n # s))) = (\<Sum>i < n. sum_list (map (\<lambda>idx. f (i # idx)) (indices s)))"
proof -
  have "sum_list (map f (indices (n # s)))
      = sum_list (map (\<lambda>i. sum_list (map (\<lambda>idx. f (i # idx)) (indices s))) [0..<n])"
    by (simp add: indices.simps map_concat sum_list_concat_map comp_def)
  also have "\<dots> = (\<Sum>i < n. sum_list (map (\<lambda>idx. f (i # idx)) (indices s)))"
    by (simp add: interv_sum_list_conv_sum_set_nat atLeast0LessThan)
  finally show ?thesis .
qed

lemma sum_list_indices3:
  "sum_list (map f (indices [B, H, W])) = (\<Sum>b < B. \<Sum>h < H. \<Sum>w < W. f [b, h, w])"
  by (simp only: sum_list_indices_Cons) (simp add: indices.simps)

lemma sum_list_indices4:
  "sum_list (map f (indices [B, N, H, W]))
     = (\<Sum>b < B. \<Sum>n < N. \<Sum>h < H. \<Sum>w < W. f [b, n, h, w])"
  by (simp only: sum_list_indices_Cons) (simp add: indices.simps)

lemma bshape_same: "bshape s s = Some s"
proof -
  have "bshape_rev r r = Some r" for r :: "nat list"
    by (induction r) auto
  then show ?thesis by (simp add: bshape_def)
qed

lemma bop_same_shape:
  "shape a = shape b \<Longrightarrow>
   bop f a b = Some \<lparr>shape = shape a,
                     el = (\<lambda>idx. f (el a (bidx (shape a) idx)) (el b (bidx (shape a) idx)))\<rparr>"
  by (simp add: bop_def bshape_same)

lemma bidx_valid: "list_all2 (<) idx s \<Longrightarrow> bidx s idx = idx"
proof -
  assume a: "list_all2 (<) idx s"
  then have l: "length idx = length s" by (rule list_all2_lengthD)
  from a have "map2 (\<lambda>d i. if d = 1 then 0 else i) s idx = idx"
    by (induction idx s rule: list_all2_induct) auto
  with l show ?thesis by (simp add: bidx_def)
qed

lemma sum_all_3:
  "shape p = [B,H,W] \<Longrightarrow> sum_all p = (\<Sum>b<B. \<Sum>h<H. \<Sum>w<W. el p [b,h,w])"
  by (simp add: sum_all_def data_def sum_list_indices3)

lemma sum_all_4:
  "shape p = [B,N,H,W] \<Longrightarrow> sum_all p = (\<Sum>b<B. \<Sum>n<N. \<Sum>h<H. \<Sum>w<W. el p [b,n,h,w])"
  by (simp add: sum_all_def data_def sum_list_indices4)

lemma t_mul_same:
  assumes "shape a = s" "shape b = s"
  obtains p where "t_mul a b = Some p" "shape p = s"
    "\<And>idx. list_all2 (<) idx s \<Longrightarrow> el p idx = el a idx * el b idx"
  using assms by (simp add: t_mul_def bop_same_shape bidx_valid)

lemma A_value:
  assumes "shape x = [B,N,H,W]" "shape Phi = [B,N,H,W]"
  obtains ax where "A x Phi = Some ax" "shape ax = [B,H,W]"
    "\<And>b h w. b < B \<Longrightarrow> h < H \<Longrightarrow> w < W \<Longrightarrow>
        el ax [b,h,w] = (\<Sum>n<N. el x [b,n,h,w] * el Phi [b,n,h,w])"
proof -
  obtain p where p: "t_mul x Phi = Some p" "shape p = [B,N,H,W]"
    "\<And>idx. list_all2 (<) idx [B,N,H,W] \<Longrightarrow> el p idx = el x idx * el Phi idx"
    using t_mul_same[OF assms] by blast
  show ?thesis
  proof (rule that)
    show "A x Phi = Some \<lparr>shape = [B,H,W],
                 el = (\<lambda>idx. \<Sum>i < N. el p (take 1 idx @ [i] @ drop 1 idx))\<rparr>"
      using assms p(1,2) by (simp add: A_def sum_dim_def)
  qed (simp_all add: p(3))
qed

lemma At_value:
  assumes "shape y = [B,H,W]" "shape Phi = [B,N,H,W]"
  obtains aty where "At y Phi = Some aty" "shape aty = [B,N,H,W]"
    "\<And>b n h w. b < B \<Longrightarrow> n < N \<Longrightarrow> h < H \<Longrightarrow> w < W \<Longrightarrow>
        el aty [b,n,h,w] = el y [b,h,w] * el Phi [b,n,h,w]"
proof -
  let ?u = "\<lparr>shape = [B,1,H,W], el = (\<lambda>idx. el y (take 1 idx @ drop (Suc 1) idx))\<rparr>"
  let ?r = "\<lparr>shape = [B,N,H,W], el = (\<lambda>idx. el ?u (map2 (\<lambda>i d. i mod d) idx (shape ?u)))\<rparr>"
  have u: "unsqueeze 1 y = Some ?u" using assms by (simp add: unsqueeze_def)
  have r: "repeat [1, shape Phi ! 1, 1, 1] ?u = Some ?r" using assms by (simp add: repeat_def)
  obtain p where p: "t_mul ?r Phi = Some p" "shape p = [B,N,H,W]"
    "\<And>idx. list_all2 (<) idx [B,N,H,W] \<Longrightarrow> el p idx = el ?r idx * el Phi idx"
    using t_mul_same[of ?r "[B,N,H,W]" Phi] assms by auto
  show ?thesis
  proof (rule that)
    show "At y Phi = Some p" using assms u r p(1) by (simp add: At_def)
  qed (simp_all add: p)
qed

section \<open>The sensing operators are adjoint\<close>

text \<open>
  Claim C10. For \<open>x\<close> and \<open>Phi\<close> of shape \<open>[B, N, H, W]\<close> and \<open>y\<close> of shape
  \<open>[B, H, W]\<close>, \<open>A(x, Phi)\<close> has shape \<open>[B, H, W]\<close>, \<open>At(y, Phi)\<close> has shape
  \<open>[B, N, H, W]\<close>, and the sum of all entries of \<open>A(x, Phi) * y\<close> equals the sum of all
  entries of \<open>x * At(y, Phi)\<close>.
\<close>

theorem A_At_adjoint:
  assumes "shape x = [B,N,H,W]" "shape Phi = [B,N,H,W]" "shape y = [B,H,W]"
  shows "\<exists>ax aty p q. A x Phi = Some ax \<and> At y Phi = Some aty \<and> shape ax = [B,H,W] \<and> shape aty = [B,N,H,W]
     \<and> t_mul ax y = Some p \<and> t_mul x aty = Some q \<and> sum_all p = sum_all q"
proof -
  obtain ax where ax: "A x Phi = Some ax" "shape ax = [B,H,W]"
    "\<And>b h w. b < B \<Longrightarrow> h < H \<Longrightarrow> w < W \<Longrightarrow>
        el ax [b,h,w] = (\<Sum>n<N. el x [b,n,h,w] * el Phi [b,n,h,w])"
    using A_value[OF assms(1,2)] by blast
  obtain aty where aty: "At y Phi = Some aty" "shape aty = [B,N,H,W]"
    "\<And>b n h w. b < B \<Longrightarrow> n < N \<Longrightarrow> h < H \<Longrightarrow> w < W \<Longrightarrow>
        el aty [b,n,h,w] = el y [b,h,w] * el Phi [b,n,h,w]"
    using At_value[OF assms(3,2)] by blast
  obtain p where p: "t_mul ax y = Some p" "shape p = [B,H,W]"
    "\<And>idx. list_all2 (<) idx [B,H,W] \<Longrightarrow> el p idx = el ax idx * el y idx"
    using t_mul_same[OF ax(2) assms(3)] by blast
  obtain q where q: "t_mul x aty = Some q" "shape q = [B,N,H,W]"
    "\<And>idx. list_all2 (<) idx [B,N,H,W] \<Longrightarrow> el q idx = el x idx * el aty idx"
    using t_mul_same[OF assms(1) aty(2)] by blast
  have sp: "sum_all p = (\<Sum>b<B. \<Sum>h<H. \<Sum>w<W. (\<Sum>n<N. el x [b,n,h,w] * el Phi [b,n,h,w]) * el y [b,h,w])"
    unfolding sum_all_3[OF p(2)]
    by (intro sum.cong refl) (simp add: p(3) ax(3))
  have sq: "sum_all q = (\<Sum>b<B. \<Sum>n<N. \<Sum>h<H. \<Sum>w<W. el x [b,n,h,w] * (el y [b,h,w] * el Phi [b,n,h,w]))"
    unfolding sum_all_4[OF q(2)]
    by (intro sum.cong refl) (simp add: q(3) aty(3))
  have "sum_all p = (\<Sum>b<B. \<Sum>h<H. \<Sum>w<W. \<Sum>n<N. el x [b,n,h,w] * (el y [b,h,w] * el Phi [b,n,h,w]))"
    unfolding sp by (intro sum.cong refl) (simp add: sum_distrib_left sum_distrib_right mult_ac)
  also have "\<dots> = (\<Sum>b<B. \<Sum>h<H. \<Sum>n<N. \<Sum>w<W. el x [b,n,h,w] * (el y [b,h,w] * el Phi [b,n,h,w]))"
    by (rule sum.cong[OF refl], rule sum.cong[OF refl], rule sum.swap)
  also have "\<dots> = (\<Sum>b<B. \<Sum>n<N. \<Sum>h<H. \<Sum>w<W. el x [b,n,h,w] * (el y [b,h,w] * el Phi [b,n,h,w]))"
    by (rule sum.cong[OF refl], rule sum.swap)
  finally have "sum_all p = sum_all q" unfolding sq .
  with ax aty p q show ?thesis by simp
qed

theorem A_At_adjoint_witness:
  "shape (tensor_of [1, 2, 1, 2] [1, 2, 3, 4]) = [1, 2, 1, 2] \<and>
   shape (tensor_of [1, 2, 1, 2] [1, 0, 1, 1]) = [1, 2, 1, 2] \<and>
   shape (tensor_of [1, 1, 2] [5, 7]) = [1, 1, 2] \<and>
   (\<exists>ax aty p q.
      A (tensor_of [1, 2, 1, 2] [1, 2, 3, 4]) (tensor_of [1, 2, 1, 2] [1, 0, 1, 1]) = Some ax \<and>
      At (tensor_of [1, 1, 2] [5, 7]) (tensor_of [1, 2, 1, 2] [1, 0, 1, 1]) = Some aty \<and>
      shape ax = [1, 1, 2] \<and> shape aty = [1, 2, 1, 2] \<and>
      t_mul ax (tensor_of [1, 1, 2] [5, 7]) = Some p \<and>
      t_mul (tensor_of [1, 2, 1, 2] [1, 2, 3, 4]) aty = Some q \<and> sum_all p = sum_all q)"
  using A_At_adjoint [of "tensor_of [1, 2, 1, 2] [1, 2, 3, 4]" 1 2 1 2
      "tensor_of [1, 2, 1, 2] [1, 0, 1, 1]" "tensor_of [1, 1, 2] [5, 7]"]
  by (simp add: tensor_of_def)

lemma for_each_append:
  "for_each body (xs @ ys) s = Option.bind (for_each body xs s) (for_each body ys)"
  by (induction xs arbitrary: s) (auto split: option.splits)

lemma nat_mod_lt: "0 < n \<Longrightarrow> nat (x mod int n) < n"
  by (simp add: nat_less_iff)

lemma select_1_of_4:
  assumes "shape t = [B, C, H, W]" "i < C"
  obtains band where "select 1 i t = Some band" "shape band = [B, H, W]"
    "\<And>b h w. el band [b, h, w] = el t [b, i, h, w]"
  using assms by (simp add: select_def)

lemma roll_2_of_3:
  assumes "shape t = [B, H, W]"
  obtains r where "roll g 2 t = Some r" "shape r = [B, H, W]"
    "\<And>b h w. el r [b, h, w] = el t [b, h, nat ((int w - g) mod int W)]"
  using assms by (simp add: roll_def)

lemma set_select_1_of_4:
  assumes "shape t = [B, C, H, W]" "i < C" "shape src = [B, H, W]"
  obtains t1 where "set_select 1 i t src = Some t1" "shape t1 = [B, C, H, W]"
    "\<And>b c h w. b < B \<Longrightarrow> h < H \<Longrightarrow> w < W \<Longrightarrow>
       el t1 [b, c, h, w] = (if c = i then el src [b, h, w] else el t [b, c, h, w])"
  using assms by (simp add: set_select_def bshape_same bidx_valid)

lemma roll_band_step:
  assumes sh: "shape t = [B, C, H, W']" and i: "i < C"
  obtains t1 where
    "do { band \<leftarrow> select 1 i t; r \<leftarrow> roll g 2 band; set_select 1 i t r } = Some t1"
    "shape t1 = [B, C, H, W']"
    "\<And>b c h w. b < B \<Longrightarrow> c < C \<Longrightarrow> h < H \<Longrightarrow> w < W' \<Longrightarrow>
       el t1 [b, c, h, w] =
         (if c = i then el t [b, c, h, nat ((int w - g) mod int W')] else el t [b, c, h, w])"
proof -
  obtain band where band: "select 1 i t = Some band" "shape band = [B, H, W']"
    "\<And>b h w. el band [b, h, w] = el t [b, i, h, w]"
    using select_1_of_4[OF sh i] by blast
  obtain r where r: "roll g 2 band = Some r" "shape r = [B, H, W']"
    "\<And>b h w. el r [b, h, w] = el band [b, h, nat ((int w - g) mod int W')]"
    using roll_2_of_3[OF band(2)] by blast
  obtain t1 where t1: "set_select 1 i t r = Some t1" "shape t1 = [B, C, H, W']"
    "\<And>b c h w. b < B \<Longrightarrow> h < H \<Longrightarrow> w < W' \<Longrightarrow>
       el t1 [b, c, h, w] = (if c = i then el r [b, h, w] else el t [b, c, h, w])"
    using set_select_1_of_4[OF sh i r(2)] by blast
  show ?thesis
  proof (rule that[of t1])
    show "do { band \<leftarrow> select 1 i t; r \<leftarrow> roll g 2 band; set_select 1 i t r } = Some t1"
      using band(1) r(1) t1(1) by simp
  qed (simp_all add: t1 r band)
qed

lemma roll_bands_loop:
  assumes sh: "shape t = [B, C, H, W']" and k: "k \<le> C"
  shows "\<exists>t'. for_each (\<lambda>i t. do { band \<leftarrow> select 1 i t; r \<leftarrow> roll (g i) 2 band;
                                   set_select 1 i t r }) [0..<k] t = Some t' \<and>
     shape t' = [B, C, H, W'] \<and>
     (\<forall>b c h w. b < B \<longrightarrow> c < C \<longrightarrow> h < H \<longrightarrow> w < W' \<longrightarrow>
       el t' [b, c, h, w] =
         (if c < k then el t [b, c, h, nat ((int w - g c) mod int W')] else el t [b, c, h, w]))"
  using k
proof (induction k)
  case 0
  then show ?case using sh by simp
next
  case (Suc k)
  then obtain t' where t': "for_each (\<lambda>i t. do { band \<leftarrow> select 1 i t; r \<leftarrow> roll (g i) 2 band;
                                   set_select 1 i t r }) [0..<k] t = Some t'"
     "shape t' = [B, C, H, W']"
     "\<And>b c h w. b < B \<Longrightarrow> c < C \<Longrightarrow> h < H \<Longrightarrow> w < W' \<Longrightarrow>
       el t' [b, c, h, w] =
         (if c < k then el t [b, c, h, nat ((int w - g c) mod int W')] else el t [b, c, h, w])"
    by auto
  from Suc.prems have kC: "k < C" by simp
  obtain t1 where t1:
    "do { band \<leftarrow> select 1 k t'; r \<leftarrow> roll (g k) 2 band; set_select 1 k t' r } = Some t1"
    "shape t1 = [B, C, H, W']"
    "\<And>b c h w. b < B \<Longrightarrow> c < C \<Longrightarrow> h < H \<Longrightarrow> w < W' \<Longrightarrow>
       el t1 [b, c, h, w] =
         (if c = k then el t' [b, c, h, nat ((int w - g k) mod int W')] else el t' [b, c, h, w])"
    using roll_band_step[OF t'(2) kC, of "g k"] by blast
  have "for_each (\<lambda>i t. do { band \<leftarrow> select 1 i t; r \<leftarrow> roll (g i) 2 band;
                                   set_select 1 i t r }) [0..<Suc k] t = Some t1"
    using t'(1) t1(1) by (simp add: for_each_append)
  moreover have "el t1 [b, c, h, w] =
         (if c < Suc k then el t [b, c, h, nat ((int w - g c) mod int W')] else el t [b, c, h, w])"
    if "b < B" "c < C" "h < H" "w < W'" for b c h w
  proof -
    have m: "nat ((int w - g k) mod int W') < W'" using that(4) by (intro nat_mod_lt) simp
    show ?thesis using that m by (simp add: t1(3) t'(3) less_Suc_eq)
  qed
  ultimately show ?case using t1(2) by blast
qed


lemma indices_valid: "idx \<in> set (indices s) \<longleftrightarrow> list_all2 (<) idx s"
proof (induction s arbitrary: idx)
  case Nil
  then show ?case by (simp add: indices.simps)
next
  case (Cons n s)
  show ?case
    by (cases idx) (force simp: indices.simps Cons.IH)+
qed

lemma tensor_equalI:
  assumes "shape a = shape b"
    and "\<And>idx. list_all2 (<) idx (shape a) \<Longrightarrow> el a idx = el b idx"
  shows "tensor_equal a b"
  using assms by (simp add: tensor_equal_def data_def indices_valid)

lemma valid4E:
  assumes "list_all2 (<) idx [B, C, H, W]"
  obtains b c h w where "idx = [b, c, h, w]" "b < B" "c < C" "h < H" "w < W"
  using assms by (auto simp: list_all2_Cons2)

lemma zeros_4:
  assumes "0 \<le> w"
  obtains t where "zeros [int B, int C, int H, w] = Some t" "shape t = [B, C, H, nat w]"
    "\<And>idx. el t idx = 0"
  using assms by (simp add: zeros_def)

lemma set_narrow_3_prefix:
  assumes "shape t = [B, C, H, W']" "shape src = [B, C, H, W]" "W \<le> W'"
  obtains t1 where "set_narrow 3 0 (int W) t src = Some t1" "shape t1 = [B, C, H, W']"
    "\<And>b c h w. b < B \<Longrightarrow> c < C \<Longrightarrow> h < H \<Longrightarrow>
       el t1 [b, c, h, w] = (if w < W then el src [b, c, h, w] else el t [b, c, h, w])"
  using assms
  by (simp add: set_narrow_def slice_start_def slice_len_def slice_norm_def bshape_same
      bidx_valid min_def)

lemma narrow_3_prefix:
  assumes "shape t = [B, C, H, W']" "W \<le> W'"
  obtains v where "narrow 3 0 (int W) t = Some v" "shape v = [B, C, H, W]"
    "\<And>b c h w. el v [b, c, h, w] = el t [b, c, h, w]"
  using assms
  by (simp add: narrow_def slice_start_def slice_len_def slice_norm_def min_def)

lemma shift_3d_value:
  assumes sh: "shape x = [B, C, H, W]" and st: "0 \<le> (int C - 1) * step"
    and W': "int W' = int W + (int C - 1) * step"
  obtains t where "shift_3d x step = Some t"
    "shape t = [B, C, H, W']"
    "\<And>b c h w. b < B \<Longrightarrow> c < C \<Longrightarrow> h < H \<Longrightarrow> w < W' \<Longrightarrow>
       el t [b, c, h, w] =
         (if nat ((int w - step * int c) mod int W') < W
          then el x [b, c, h, nat ((int w - step * int c) mod int W')]
          else 0)"
proof -
  have WW: "W \<le> W'" "nat (int W + (int C - 1) * step) = W'" using st W' by simp_all
  obtain t0 where t0: "zeros [int B, int C, int H, int W + (int C - 1) * step] = Some t0"
    "shape t0 = [B, C, H, W']" "\<And>idx. el t0 idx = 0"
    using zeros_4[of "int W + (int C - 1) * step" B C H] st unfolding WW(2) by auto
  obtain t1 where t1: "set_narrow 3 0 (int W) t0 x = Some t1" "shape t1 = [B, C, H, W']"
    "\<And>b c h w. b < B \<Longrightarrow> c < C \<Longrightarrow> h < H \<Longrightarrow>
       el t1 [b, c, h, w] = (if w < W then el x [b, c, h, w] else el t0 [b, c, h, w])"
    using set_narrow_3_prefix[OF t0(2) sh WW(1)] by blast
  have body: "shift_3d_band step = (\<lambda>i t. do { band \<leftarrow> select 1 i t;
        r \<leftarrow> roll (step * int i) 2 band; set_select 1 i t r })"
    by (intro ext) (simp add: shift_3d_band_def)
  obtain t where t: "for_each (shift_3d_band step) [0..<C] t1 = Some t"
    "shape t = [B, C, H, W']"
    "\<And>b c h w. b < B \<Longrightarrow> c < C \<Longrightarrow> h < H \<Longrightarrow> w < W' \<Longrightarrow>
       el t [b, c, h, w] = el t1 [b, c, h, nat ((int w - step * int c) mod int W')]"
    using roll_bands_loop[OF t1(2) order_refl, of "\<lambda>i. step * int i"] unfolding body by auto
  show ?thesis
  proof (rule that[of t])
    show "shift_3d x step = Some t" using sh t0(1) t1(1) t(1) by (simp add: shift_3d_def)
    show "shape t = [B, C, H, W']" by (rule t(2))
    fix b c h w assume "b < B" "c < C" "h < H" "w < W'"
    then show "el t [b, c, h, w] =
         (if nat ((int w - step * int c) mod int W') < W
          then el x [b, c, h, nat ((int w - step * int c) mod int W')]
          else 0)"
      using t(3)[of b c h w] t1(3)[of b c h] t0(3) by simp
  qed
qed

lemma shift_back_3d_value:
  assumes sh: "shape t = [B, C, H, W']"
  obtains u where "shift_back_3d t step = Some u" "shape u = [B, C, H, W']"
    "\<And>b c h w. b < B \<Longrightarrow> c < C \<Longrightarrow> h < H \<Longrightarrow> w < W' \<Longrightarrow>
       el u [b, c, h, w] = el t [b, c, h, nat ((int w + step * int c) mod int W')]"
proof -
  have body: "shift_back_3d_band step = (\<lambda>i t. do { band \<leftarrow> select 1 i t;
        r \<leftarrow> roll ((- 1) * step * int i) 2 band; set_select 1 i t r })"
    by (intro ext) (simp add: shift_back_3d_band_def)
  obtain u where u: "for_each (shift_back_3d_band step) [0..<C] t = Some u"
    "shape u = [B, C, H, W']"
    "\<And>b c h w. b < B \<Longrightarrow> c < C \<Longrightarrow> h < H \<Longrightarrow> w < W' \<Longrightarrow>
       el u [b, c, h, w] = el t [b, c, h, nat ((int w - (- 1) * step * int c) mod int W')]"
    using roll_bands_loop[OF sh order_refl, of "\<lambda>i. (- 1) * step * int i"] unfolding body by auto
  show ?thesis
  proof (rule that[of u])
    show "shift_back_3d t step = Some u" using sh u(1) by (simp add: shift_back_3d_def)
  qed (simp_all add: u)
qed

section \<open>Shift and unshift\<close>

text \<open>
  Claim C4, as amended. For every tensor \<open>x\<close> of shape \<open>[B, C, H, W]\<close> and every integer
  step with \<open>(C - 1) * step \<ge> 0\<close> (every step when there is one band, every step
  \<open>\<ge> 0\<close> when there are several), \<open>shift_3d\<close> and then \<open>shift_back_3d\<close> with the same
  step succeed, and the first \<open>W\<close> columns of the result equal \<open>x\<close> exactly.
\<close>

theorem shift_round_trip:
  assumes sh: "shape x = [B, C, H, W]" and st: "0 \<le> (int C - 1) * step"
  shows "\<exists>t u v. shift_3d x step = Some t \<and> shift_back_3d t step = Some u \<and>
           narrow 3 0 (int W) u = Some v \<and> tensor_equal v x"
proof -
  define W' where "W' = nat (int W + (int C - 1) * step)"
  have W': "W \<le> W'" "int W' = int W + (int C - 1) * step" using st by (simp_all add: W'_def)
  obtain t where t: "shift_3d x step = Some t" "shape t = [B, C, H, W']"
    "\<And>b c h w. b < B \<Longrightarrow> c < C \<Longrightarrow> h < H \<Longrightarrow> w < W' \<Longrightarrow>
       el t [b, c, h, w] =
         (if nat ((int w - step * int c) mod int W') < W
          then el x [b, c, h, nat ((int w - step * int c) mod int W')]
          else 0)"
    using shift_3d_value[OF sh st W'(2)] by blast
  obtain u where u: "shift_back_3d t step = Some u" "shape u = [B, C, H, W']"
    "\<And>b c h w. b < B \<Longrightarrow> c < C \<Longrightarrow> h < H \<Longrightarrow> w < W' \<Longrightarrow>
       el u [b, c, h, w] = el t [b, c, h, nat ((int w + step * int c) mod int W')]"
    using shift_back_3d_value[OF t(2)] by blast
  obtain v where v: "narrow 3 0 (int W) u = Some v" "shape v = [B, C, H, W]"
    "\<And>b c h w. el v [b, c, h, w] = el u [b, c, h, w]"
    using narrow_3_prefix[OF u(2) W'(1)] by blast
  have "el v idx = el x idx" if "list_all2 (<) idx (shape v)" for idx
  proof -
    from that obtain b c h w where i: "idx = [b, c, h, w]" "b < B" "c < C" "h < H" "w < W"
      unfolding v(2) by (rule valid4E)
    have w': "w < W'" "0 < W'" using i(5) W'(1) by simp_all
    define w1 where "w1 = nat ((int w + step * int c) mod int W')"
    have m: "w1 < W'" unfolding w1_def by (rule nat_mod_lt[OF w'(2)])
    have "int w1 = (int w + step * int c) mod int W'" using w'(2) by (simp add: w1_def)
    then have "(int w1 - step * int c) mod int W' = int w mod int W'"
      by (simp add: mod_diff_left_eq)
    then have rt: "nat ((int w1 - step * int c) mod int W') = w" using w'(1) by simp
    have e1: "el v [b, c, h, w] = el u [b, c, h, w]" by (rule v(3))
    have e2: "el u [b, c, h, w] = el t [b, c, h, w1]"
      unfolding w1_def by (rule u(3)[OF i(2-4) w'(1)])
    have e3: "el t [b, c, h, w1] = el x [b, c, h, w]"
      using t(3)[OF i(2-4) m] i(5) unfolding rt by simp
    show ?thesis unfolding i(1) e1 e2 e3 ..
  qed
  then have "tensor_equal v x" using v(2) sh by (intro tensor_equalI) simp_all
  with t(1) u(1) v(1) show ?thesis by blast
qed

theorem shift_round_trip_witness:
  "shape (tensor_of [1, 2, 1, 2] [1, 2, 3, 4]) = [1, 2, 1, 2] \<and> 0 \<le> (int 2 - 1) * (2::int) \<and>
   (\<exists>t u v. shift_3d (tensor_of [1, 2, 1, 2] [1, 2, 3, 4]) 2 = Some t \<and>
      shift_back_3d t 2 = Some u \<and> narrow 3 0 (int 2) u = Some v \<and>
      tensor_equal v (tensor_of [1, 2, 1, 2] [1, 2, 3, 4]))"
  using shift_round_trip [of "tensor_of [1, 2, 1, 2] [1, 2, 3, 4]" 1 2 1 2 2]
  by (simp add: tensor_of_def)

text \<open>
  Claim C4 as stated (every integer step) fails: with two bands of width 1 and step \<open>-2\<close>
  the padded width \<open>W + (C - 1) * step\<close> is \<open>-1\<close>, and \<open>shift_3d\<close> raises when it
  allocates the padded tensor.
\<close>

theorem shift_3d_negative_step_counterexample:
  "shift_3d (tensor_of [1, 2, 1, 1] [1, 2]) (- 2) = None"
  by (simp add: shift_3d_def tensor_of_def zeros_def)

lemma bop_same:
  assumes "shape a = s" "shape b = s"
  obtains p where "bop f a b = Some p" "shape p = s"
    "\<And>idx. list_all2 (<) idx s \<Longrightarrow> el p idx = f (el a idx) (el b idx)"
  using assms by (simp add: bop_same_shape bidx_valid)

lemma stage_frame:
  assumes "stage m y beta W_0 i st = Some st'"
  shows "phi st' = phi st" "z_list st' = z_list st @ [z st']"
    "momentum beta i (z st') (z_list st @ [z st']) = Some (z_hat st')"
  using assms by (auto simp: stage_def split: bind_splits prod.splits)

lemma loop_phi:
  "for_each (stage m y beta W_0) is st = Some st' \<Longrightarrow> phi st' = phi st"
proof (induction "is" arbitrary: st)
  case Nil
  then show ?case by simp
next
  case (Cons i "is")
  then show ?case by (auto split: option.splits dest: stage_frame(1))
qed

lemma loop_last:
  "for_each (stage m y beta W_0) is st = Some st' \<Longrightarrow>
     z_list st \<noteq> [] \<and> last (z_list st) = z st \<Longrightarrow>
     z_list st' \<noteq> [] \<and> last (z_list st') = z st'"
proof (induction "is" arbitrary: st)
  case Nil
  then show ?case by simp
next
  case (Cons i "is")
  from Cons.prems(1) obtain s1 where s1: "stage m y beta W_0 i st = Some s1"
    and r: "for_each (stage m y beta W_0) is s1 = Some st'"
    by (auto split: option.splits)
  have "z_list s1 \<noteq> [] \<and> last (z_list s1) = z s1"
    using stage_frame(2)[OF s1] by simp
  then show ?case by (rule Cons.IH[OF r])
qed

lemma init_state:
  assumes "forward_test_init m dat = Some st0"
  shows "phi st0 = data_mask dat" "z_hat st0 = z st0" "z_list st0 = [z st0]"
  using assms by (auto simp: forward_test_init_def split: bind_splits)


lemma py_index_snoc:
  "py_index (zs @ [zn]) (- 1) = Some zn"
  "zs \<noteq> [] \<Longrightarrow> py_index (zs @ [zn]) (- 2) = Some (last zs)"
proof -
  show "py_index (zs @ [zn]) (- 1) = Some zn" by (simp add: py_index_def)
  assume "zs \<noteq> []"
  then obtain ys y where zs: "zs = ys @ [y]" by (metis append_butlast_last_id)
  have "(ys @ [y, zn]) ! length ys = y" by (simp add: nth_append)
  then show "py_index (zs @ [zn]) (- 2) = Some (last zs)"
    unfolding zs by (simp add: py_index_def nat_add_distrib)
qed

lemma beta_select:
  assumes "beta_of W = Some beta"
    and "select 0 i beta = Some b"
  shows "shape b = [1]" "el b idx = 0.5"
  using assms by (auto simp: beta_of_def ones_def t_map_def select_def split: if_splits)

lemma t_mul_scalar4:
  assumes "shape b = [1]" "shape d = [B, C, H, W]" "t_mul b d = Some p"
  shows "shape p = [B, C, H, W]"
    "\<And>i c h w. el p [i, c, h, w] = el b [0] * el d (bidx [B, C, H, W] [i, c, h, w])"
  using assms by (auto simp: t_mul_def bop_def bshape_def bidx_def split: if_splits)

section \<open>The momentum point\<close>

text \<open>
  Claim C3. After stage \<open>i\<close> of the loop of \<open>forward_test\<close>, the momentum point is
  \<open>z_hat = z_new + 0.5 * (z_new - z_old)\<close> entry by entry, where \<open>z_old\<close> is the estimate of
  the state the stage started from: the coefficient \<open>beta[i]\<close> is 0.5 at every stage.
\<close>

theorem momentum_point:
  assumes init: "forward_test_init m dat = Some st0"
    and prev: "for_each (stage m y beta W_0) [0..<i] st0 = Some sp"
    and cur: "stage m y beta W_0 i sp = Some st"
    and beta: "beta_of W = Some beta"
    and shp: "shape (z sp) = [B, C, H, W']" and sht: "shape (z st) = [B, C, H, W']"
  shows "\<forall>b<B. \<forall>c<C. \<forall>h<H. \<forall>w<W'.
     el (z_hat st) [b, c, h, w] =
       el (z st) [b, c, h, w] + 0.5 * (el (z st) [b, c, h, w] - el (z sp) [b, c, h, w])"
proof -
  have inv: "z_list sp \<noteq> [] \<and> last (z_list sp) = z sp"
    using loop_last[OF prev] init_state(3)[OF init] by simp
  have mom: "momentum beta i (z st) (z_list sp @ [z st]) = Some (z_hat st)"
    by (rule stage_frame(3)[OF cur])
  then obtain bi d p where bi: "select 0 i beta = Some bi"
    and d: "t_sub (z st) (z sp) = Some d" and p: "t_mul bi d = Some p"
    and zh: "t_add (z st) p = Some (z_hat st)"
    using inv by (auto simp: momentum_def py_index_snoc split: bind_splits)
  note b = beta_select[OF beta bi]
  obtain d' where d': "bop (-) (z st) (z sp) = Some d'" "shape d' = [B, C, H, W']"
    "\<And>idx. list_all2 (<) idx [B, C, H, W'] \<Longrightarrow> el d' idx = el (z st) idx - el (z sp) idx"
    using bop_same[OF sht shp] by blast
  have dd: "d' = d" using d d'(1) by (simp add: t_sub_def)
  note pp = t_mul_scalar4[OF b(1) d'(2)[unfolded dd] p]
  obtain h' where h': "bop (+) (z st) p = Some h'" "shape h' = [B, C, H, W']"
    "\<And>idx. list_all2 (<) idx [B, C, H, W'] \<Longrightarrow> el h' idx = el (z st) idx + el p idx"
    using bop_same[OF sht pp(1)] by blast
  have hh: "h' = z_hat st" using zh h'(1) by (simp add: t_add_def)
  show ?thesis
    using h'(3)[unfolded hh] d'(3)[unfolded dd] by (simp add: pp(2) b(2) bidx_valid)
qed

lemma valid3E:
  assumes "list_all2 (<) idx [B, H, W]"
  obtains b h w where "idx = [b, h, w]" "b < B" "h < H" "w < W"
  using assms by (auto simp: list_all2_Cons2)

lemma bop_bcast:
  assumes "bshape (shape a) (shape b) = Some s"
  obtains p where "bop f a b = Some p" "shape p = s"
    "\<And>idx. el p idx = f (el a (bidx (shape a) idx)) (el b (bidx (shape b) idx))"
  using assms by (simp add: bop_def)

lemma Phi_s_value:
  assumes "shape Phi = [B, C, H, W]"
  obtains P where "sum_dim 1 (t_map (\<lambda>v. v ^ 2) Phi) = Some P" "shape P = [B, H, W]"
    "\<And>b h w. el P [b, h, w] = (\<Sum>n<C. (el Phi [b, n, h, w]) ^ 2)"
  using assms by (simp add: sum_dim_def t_map_def)

lemma t_div_same:
  assumes "shape r = s" "shape d = s"
    and "\<And>idx. list_all2 (<) idx s \<Longrightarrow> el d idx \<noteq> 0"
  obtains q where "t_div r d = Some q" "shape q = s"
    "\<And>idx. list_all2 (<) idx s \<Longrightarrow> el q idx = el r idx / el d idx"
proof -
  obtain q where q: "bop (/) r d = Some q" "shape q = s"
    "\<And>idx. list_all2 (<) idx s \<Longrightarrow> el q idx = el r idx / el d idx"
    using bop_same[OF assms(1,2)] by blast
  have "t_div r d = Some q"
    using q(1,2) assms(2,3) by (auto simp: t_div_def indices_valid bidx_valid)
  then show ?thesis using q(2,3) that by blast
qed

lemma gradient_step_value:
  assumes zc: "shape zc = [B, C, H, W]" and zh: "shape zh = [B, C, H, W]"
    and Phi: "shape Phi = [B, C, H, W]"
    and y: "bshape (shape y) [B, H, W] = Some [B, H, W]"
    and mu: "bshape (shape mu) [B, H, W] = Some [B, H, W]"
    and pos: "\<And>b h w. b < B \<Longrightarrow> h < H \<Longrightarrow> w < W \<Longrightarrow> 0 < el mu (bidx (shape mu) [b, h, w])"
  obtains x where "gradient_step y zc zh Phi mu = Some x" "shape x = [B, C, H, W]"
    "\<And>b c h w. b < B \<Longrightarrow> c < C \<Longrightarrow> h < H \<Longrightarrow> w < W \<Longrightarrow>
       el x [b, c, h, w] = data_consistency y zc zh Phi mu C b c h w"
proof -
  obtain P where P: "sum_dim 1 (t_map (\<lambda>v. v ^ 2) Phi) = Some P" "shape P = [B, H, W]"
    "\<And>b h w. el P [b, h, w] = (\<Sum>n<C. (el Phi [b, n, h, w]) ^ 2)"
    using Phi_s_value[OF Phi] by blast
  define P2 where "P2 = t_map (\<lambda>v. if v = 0 then 1 else v) P"
  have P2: "shape P2 = [B, H, W]"
    "\<And>b h w. el P2 [b, h, w] = (if (\<Sum>n<C. (el Phi [b, n, h, w]) ^ 2) = 0 then 1
        else (\<Sum>n<C. (el Phi [b, n, h, w]) ^ 2))"
    by (simp_all add: P2_def t_map_def P)
  obtain Pz where Pz: "A zh Phi = Some Pz" "shape Pz = [B, H, W]"
    "\<And>b h w. b < B \<Longrightarrow> h < H \<Longrightarrow> w < W \<Longrightarrow>
        el Pz [b, h, w] = (\<Sum>n<C. el zh [b, n, h, w] * el Phi [b, n, h, w])"
    using A_value[OF zh Phi] by blast
  obtain r where r: "bop (-) y Pz = Some r" "shape r = [B, H, W]"
    "\<And>idx. el r idx = el y (bidx (shape y) idx) - el Pz (bidx (shape Pz) idx)"
    using bop_bcast[of y Pz "[B, H, W]"] y Pz(2) by auto
  obtain d where d: "bop (+) mu P2 = Some d" "shape d = [B, H, W]"
    "\<And>idx. el d idx = el mu (bidx (shape mu) idx) + el P2 (bidx (shape P2) idx)"
    using bop_bcast[of mu P2 "[B, H, W]"] mu P2(1) by auto
  have P2pos: "0 < el P2 [b, h, w]" for b h w
    unfolding P2(2) by (simp add: sum_nonneg less_le)
  have dpos: "el d idx \<noteq> 0" if "list_all2 (<) idx [B, H, W]" for idx
  proof -
    from that obtain b h w where i: "idx = [b, h, w]" "b < B" "h < H" "w < W" by (rule valid3E)
    have "0 < el d idx"
      unfolding d(3) i(1) P2(1) using pos[OF i(2-4)] P2pos[of b h w] i(2-4)
      by (simp add: bidx_valid)
    then show ?thesis by simp
  qed
  obtain q where q: "t_div r d = Some q" "shape q = [B, H, W]"
    "\<And>idx. list_all2 (<) idx [B, H, W] \<Longrightarrow> el q idx = el r idx / el d idx"
    using t_div_same[OF r(2) d(2) dpos] by blast
  obtain a where a: "At q Phi = Some a" "shape a = [B, C, H, W]"
    "\<And>b n h w. b < B \<Longrightarrow> n < C \<Longrightarrow> h < H \<Longrightarrow> w < W \<Longrightarrow>
        el a [b, n, h, w] = el q [b, h, w] * el Phi [b, n, h, w]"
    using At_value[OF q(2) Phi] by blast
  obtain x where x: "bop (+) zc a = Some x" "shape x = [B, C, H, W]"
    "\<And>idx. list_all2 (<) idx [B, C, H, W] \<Longrightarrow> el x idx = el zc idx + el a idx"
    using bop_same[OF zc a(2)] by blast
  show ?thesis
  proof (rule that[of x])
    show "gradient_step y zc zh Phi mu = Some x"
      using P(1) Pz(1) r(1) d(1) q(1) a(1) x(1)
      by (simp add: gradient_step_def Phi_s_of_def t_sub_def t_add_def P2_def)
    show "shape x = [B, C, H, W]" by (rule x(2))
    fix b c h w assume i: "b < B" "c < C" "h < H" "w < W"
    then show "el x [b, c, h, w] = data_consistency y zc zh Phi mu C b c h w"
      by (simp add: x(3) a(3) q(3) r(3) d(3) Pz P2 bidx_valid data_consistency_def
          spec_Forward_def spec_Phi_s_def)
  qed
qed

lemma maps_shapeD:
  assumes "maps_shape f s s'" "shape t = s"
  obtains r where "f t = Some r" "shape r = s'"
  using assms unfolding maps_shape_def by blast

lemma softplus_pos: "0 < softplus v"
  by (simp add: softplus_def ln_gt_zero add_pos_pos)

lemma cat_1_of_4:
  assumes "shape a = [B, Ca, H, W]" "shape b = [B, Cb, H, W]"
  obtains r where "cat 1 a b = Some r" "shape r = [B, Ca + Cb, H, W]"
  using assms by (simp add: cat_def)

lemma DADN_forward_value:
  assumes zc: "shape zc = [B, C, H, W]" and ph: "shape ph = [B, C, H, W]"
    and DL: "maps_shape (DL dp) [B, C + C, H, W] [B, C, H, W]"
    and ds: "maps_shape (down_sample dp) [B, C, H, W] [B, C2, Suc H2, Suc W2]"
    and mlp: "maps_shape (mlp_convs dp) [B, C2, 1, 1] [B, 2, 1, 1]"
  obtains Phi mu nl where "DADN_forward dp zc ph = Some (Phi, mu, nl)"
    "shape Phi = [B, C, H, W]" "shape mu = [B, 1, 1]" "shape nl = [B, 1, 1, 1]"
    "\<And>idx. 1 / 1000000 < el mu idx"
proof -
  obtain inp where inp: "cat 1 ph zc = Some inp" "shape inp = [B, C + C, H, W]"
    using cat_1_of_4[OF ph zc] by blast
  obtain phi_r where phi_r: "DL dp inp = Some phi_r" "shape phi_r = [B, C, H, W]"
    using maps_shapeD[OF DL inp(2)] by blast
  obtain Phi where Phi: "bop (+) ph phi_r = Some Phi" "shape Phi = [B, C, H, W]"
    using bop_same[OF ph phi_r(2)] by blast
  have "shape (t_map relu phi_r) = [B, C, H, W]" by (simp add: t_map_def phi_r(2))
  then obtain x1 where x1: "down_sample dp (t_map relu phi_r) = Some x1"
    "shape x1 = [B, C2, Suc H2, Suc W2]"
    using maps_shapeD[OF ds] by blast
  obtain x2 where x2: "avg_pool x1 = Some x2" "shape x2 = [B, C2, 1, 1]"
    using x1(2) by (simp add: avg_pool_def)
  obtain x3 where x3: "mlp_convs dp x2 = Some x3" "shape x3 = [B, 2, 1, 1]"
    using maps_shapeD[OF mlp x2(2)] by blast
  define x4 where "x4 = t_map (\<lambda>v. softplus v + 1 / 1000000) x3"
  have x4: "shape x4 = [B, 2, 1, 1]" "\<And>idx. 1 / 1000000 < el x4 idx"
    using softplus_pos by (simp_all add: x4_def t_map_def x3(2))
  obtain mu where mu: "select 1 0 x4 = Some mu" "shape mu = [B, 1, 1]"
    "\<And>idx. el mu idx = el x4 (take 1 idx @ [0] @ drop 1 idx)"
    using x4(1) by (simp add: select_def)
  obtain n1 where n1: "select 1 1 x4 = Some n1" "shape n1 = [B, 1, 1]"
    using x4(1) by (simp add: select_def)
  obtain nl where nl: "unsqueeze 1 n1 = Some nl" "shape nl = [B, 1, 1, 1]"
    using n1(2) by (simp add: unsqueeze_def)
  show ?thesis
  proof (rule that[of Phi mu nl])
    show "DADN_forward dp zc ph = Some (Phi, mu, nl)"
      using inp(1) phi_r(1) Phi(1) x1(1) x2(1) x3(1) mu(1) n1(1) nl(1) x4(1) n1(2)
      by (simp add: DADN_forward_def t_add_def x4_def)
    show "1 / 1000000 < el mu idx" for idx unfolding mu(3) by (rule x4(2))
  qed (simp_all add: Phi mu(2) nl)
qed

lemma bshape_mu_plane: "bshape [B, 1, 1] [B, H, W] = Some [B, H, W]"
  by (simp add: bshape_def)

lemma bshape_const_plane: "bshape [1] [B, H, W] = Some [B, H, W]"
  by (simp add: bshape_def)

lemma degradation_value:
  assumes zc: "shape zc = [B, C, H, W]" and ph: "shape ph = [B, C, H, W]"
    and dp: "stage_module (cfg m) (DP m) i = Some dp" and ok: "DADN_shapes dp B C H W"
  obtains Phi mu nl where "degradation m i zc ph = Some (Phi, mu, nl)"
    "shape Phi = [B, C, H, W]" "bshape (shape mu) [B, H, W] = Some [B, H, W]"
    "shape nl = [B, 1, 1, 1]"
    "\<And>b h w. b < B \<Longrightarrow> h < H \<Longrightarrow> w < W \<Longrightarrow> 1 / 1000000 \<le> el mu (bidx (shape mu) [b, h, w])"
    "\<not> WITH_DL (cfg m) \<Longrightarrow> Phi = ph"
proof -
  from ok obtain C2 H2 W2 where nets: "maps_shape (DL dp) [B, C + C, H, W] [B, C, H, W]"
    "maps_shape (down_sample dp) [B, C, H, W] [B, C2, Suc H2, Suc W2]"
    "maps_shape (mlp_convs dp) [B, C2, 1, 1] [B, 2, 1, 1]"
    unfolding DADN_shapes_def by blast
  obtain Phi mu nl where d: "DADN_forward dp zc ph = Some (Phi, mu, nl)"
    "shape Phi = [B, C, H, W]" "shape mu = [B, 1, 1]" "shape nl = [B, 1, 1, 1]"
    "\<And>idx. 1 / 1000000 < el mu idx"
    using DADN_forward_value[OF zc ph nets] by blast
  define Phi' where "Phi' = (if \<not> WITH_DL (cfg m) then ph else Phi)"
  define mu' where "mu' = (if \<not> WITH_MU (cfg m) then tensor_of [1] [1 / 1000000] else mu)"
  show ?thesis
  proof (rule that[of Phi' mu' nl])
    show "degradation m i zc ph = Some (Phi', mu', nl)"
      using dp d(1) by (simp add: degradation_def Phi'_def mu'_def)
    show "shape Phi' = [B, C, H, W]" using d(2) ph by (simp add: Phi'_def)
    show "bshape (shape mu') [B, H, W] = Some [B, H, W]"
      using d(3) bshape_mu_plane[of B H W] bshape_const_plane[of B H W]
      by (simp add: mu'_def tensor_of_def)
    show "shape nl = [B, 1, 1, 1]" by (rule d(4))
    show "1 / 1000000 \<le> el mu' (bidx (shape mu') [b, h, w])" if "b < B" "h < H" "w < W" for b h w
      using d(5)[of "bidx (shape mu) [b, h, w]"]
      by (simp add: mu'_def tensor_of_def bidx_def less_imp_le)
    show "Phi' = ph" if "\<not> WITH_DL (cfg m)" using that by (simp add: Phi'_def)
  qed
qed

lemma prior_step_value:
  assumes x: "shape x = [B, C, H, W]" and W: "int W = int W_0 + (int C - 1) * 2" and C: "0 < C"
    and nl: "shape nl = [B, 1, 1, 1]"
    and pp: "stage_module (cfg m) (PP m) i = Some pp"
    and net: "maps_shape pp [B, (if WITH_NOISE_LEVEL (cfg m) then 1 + C else C), H, W_0] [B, C, H, W_0]"
  obtains zn where "prior_step m i W_0 x nl = Some zn" "shape zn = [B, C, H, W]"
proof -
  have W0: "W_0 \<le> W" and st: "0 \<le> (int C - 1) * 2" using W C by simp_all
  obtain xb where xb: "shift_back_3d x 2 = Some xb" "shape xb = [B, C, H, W]"
    by (rule shift_back_3d_value[OF x, of 2])
  obtain xc where xc: "narrow 3 0 (int W_0) xb = Some xc" "shape xc = [B, C, H, W_0]"
    by (rule narrow_3_prefix[OF xb(2) W0])
  obtain nlr where nlr: "repeat_n [1, 1, shape xc ! 2, shape xc ! 3] nl = Some nlr"
    "shape nlr = [B, 1, H, W_0]"
    using nl xc(2) by (simp add: repeat_n_def)
  obtain zn where zn: "(if \<not> WITH_NOISE_LEVEL (cfg m) then pp xc
            else do { inp \<leftarrow> cat 1 nlr xc; pp inp }) = Some zn" "shape zn = [B, C, H, W_0]"
  proof (cases "WITH_NOISE_LEVEL (cfg m)")
    case True
    obtain inp where inp: "cat 1 nlr xc = Some inp" "shape inp = [B, 1 + C, H, W_0]"
      using cat_1_of_4[OF nlr(2) xc(2)] by blast
    from net True have "maps_shape pp [B, 1 + C, H, W_0] [B, C, H, W_0]" by simp
    from maps_shapeD[OF this inp(2)] obtain r where "pp inp = Some r" "shape r = [B, C, H, W_0]"
      by blast
    then show ?thesis using that True inp(1) by simp
  next
    case False
    from net False have "maps_shape pp [B, C, H, W_0] [B, C, H, W_0]" by simp
    from maps_shapeD[OF this xc(2)] obtain r where "pp xc = Some r" "shape r = [B, C, H, W_0]"
      by blast
    then show ?thesis using that False by simp
  qed
  obtain t where t: "shift_3d zn 2 = Some t" "shape t = [B, C, H, W]"
    by (rule shift_3d_value[OF zn(2) st W])
  show ?thesis
  proof (rule that[of t])
    show "prior_step m i W_0 x nl = Some t"
      using xb(1) xc(1) nlr(1) pp zn(1) t(1) by (simp add: prior_step_def)
  qed (rule t(2))
qed

lemma beta_value:
  obtains beta where "beta_of Wb = Some beta"
    "shape beta = [Wb, 1]"
  by (simp add: beta_of_def ones_def t_map_def)

lemma bshape_scalar4: "bshape [1] [B, C, H, W] = Some [B, C, H, W]"
  by (simp add: bshape_def)

lemma momentum_value:
  assumes beta: "shape beta = [Wb, 1]" and i: "i < Wb"
    and zl: "zl \<noteq> []" "shape (last zl) = [B, C, H, W]" and zn: "shape zn = [B, C, H, W]"
  obtains zh where "momentum beta i zn (zl @ [zn]) = Some zh" "shape zh = [B, C, H, W]"
proof -
  obtain b where b: "select 0 i beta = Some b" "shape b = [1]"
    using beta i by (simp add: select_def)
  obtain d where d: "bop (-) zn (last zl) = Some d" "shape d = [B, C, H, W]"
    using bop_same[OF zn zl(2)] by blast
  have bs: "bshape (shape b) (shape d) = Some [B, C, H, W]"
    unfolding b(2) d(2) by (rule bshape_scalar4)
  obtain p where p: "bop (*) b d = Some p" "shape p = [B, C, H, W]"
    using bop_bcast[OF bs] by blast
  obtain zh where zh: "bop (+) zn p = Some zh" "shape zh = [B, C, H, W]"
    using bop_same[OF zn p(2)] by blast
  show ?thesis
  proof (rule that[of zh])
    show "momentum beta i zn (zl @ [zn]) = Some zh"
      using b(1) d(1) p(1) zh(1) zl(1)
      by (simp add: momentum_def py_index_snoc t_sub_def t_mul_def t_add_def)
  qed (rule zh(2))
qed

lemma stage_progress:
  assumes inv: "loop_inv B C H W st"
    and y: "bshape (shape y) [B, H, W] = Some [B, H, W]"
    and beta: "shape beta = [Wb, 1]" and i: "i < Wb"
    and W: "int W = int W_0 + (int C - 1) * 2" and C: "0 < C"
    and nets: "stage_nets m i B C H W W_0"
  obtains st' where "stage m y beta W_0 i st = Some st'" "loop_inv B C H W st'"
proof -
  from inv have sh: "shape (phi st) = [B, C, H, W]" "shape (z st) = [B, C, H, W]"
    "shape (z_hat st) = [B, C, H, W]" "z_list st \<noteq> []" "last (z_list st) = z st"
    by (simp_all add: loop_inv_def)
  from nets obtain dp pp where dp: "stage_module (cfg m) (DP m) i = Some dp"
    "DADN_shapes dp B C H W"
    and pp: "stage_module (cfg m) (PP m) i = Some pp"
    "maps_shape pp [B, (if WITH_NOISE_LEVEL (cfg m) then 1 + C else C), H, W_0] [B, C, H, W_0]"
    unfolding stage_nets_def by blast
  obtain Phi mu nl where deg: "degradation m i (z st) (phi st) = Some (Phi, mu, nl)"
    "shape Phi = [B, C, H, W]" "bshape (shape mu) [B, H, W] = Some [B, H, W]"
    "shape nl = [B, 1, 1, 1]"
    "\<And>b h w. b < B \<Longrightarrow> h < H \<Longrightarrow> w < W \<Longrightarrow> 1 / 1000000 \<le> el mu (bidx (shape mu) [b, h, w])"
    "\<not> WITH_DL (cfg m) \<Longrightarrow> Phi = phi st"
    using degradation_value[OF sh(2) sh(1) dp] by blast
  have pos: "0 < el mu (bidx (shape mu) [b, h, w])" if "b < B" "h < H" "w < W" for b h w
    using deg(5)[OF that] by simp
  obtain x where x: "gradient_step y (z st) (z_hat st) Phi mu = Some x" "shape x = [B, C, H, W]"
    by (rule gradient_step_value[OF sh(2) sh(3) deg(2) y deg(3) pos])
  obtain zn where zn: "prior_step m i W_0 x nl = Some zn" "shape zn = [B, C, H, W]"
    by (rule prior_step_value[OF x(2) W C deg(4) pp])
  obtain zh where zh: "momentum beta i zn (z_list st @ [zn]) = Some zh" "shape zh = [B, C, H, W]"
    using momentum_value[OF beta i sh(4) _ zn(2)] sh(2,5) by auto
  show ?thesis
  proof (rule that)
    show "stage m y beta W_0 i st = Some (st\<lparr>z := zn, z_hat := zh, z_list := z_list st @ [zn]\<rparr>)"
      using deg(1) x(1) zn(1) zh(1) by (simp add: stage_def)
    show "loop_inv B C H W (st\<lparr>z := zn, z_hat := zh, z_list := z_list st @ [zn]\<rparr>)"
      using sh(1) zn(2) zh(2) by (simp add: loop_inv_def)
  qed
qed

lemma loop_progress:
  assumes inv: "loop_inv B C H W st"
    and y: "bshape (shape y) [B, H, W] = Some [B, H, W]"
    and beta: "shape beta = [Wb, 1]" and n: "n \<le> Wb"
    and W: "int W = int W_0 + (int C - 1) * 2" and C: "0 < C"
    and nets: "\<And>i. i < n \<Longrightarrow> stage_nets m i B C H W W_0"
  shows "\<exists>st'. for_each (stage m y beta W_0) [0..<n] st = Some st' \<and> loop_inv B C H W st'"
  using n nets
proof (induction n)
  case 0
  then show ?case using inv by simp
next
  case (Suc n)
  then obtain s1 where s1: "for_each (stage m y beta W_0) [0..<n] st = Some s1"
    "loop_inv B C H W s1" by auto
  have "n < Wb" using Suc.prems(1) by simp
  from stage_progress[OF s1(2) y beta this W C Suc.prems(2)[of n]]
  obtain s2 where "stage m y beta W_0 n s1 = Some s2" "loop_inv B C H W s2" by auto
  then show ?case using s1(1) by (auto simp: for_each_append)
qed

lemma initial_band_value:
  assumes t: "shape t = [B, C, H, W]" and y: "shape y = [By, Hy, Wy]" and i: "i < C"
    and fit: "bshape [By, Hy, slice_len Wy (step * int i) (step * int i + int W - (int C - 1) * step)]
                [B, H, slice_len W (step * int i) (step * int i + int W - (int C - 1) * step)]
              = Some [B, H, slice_len W (step * int i) (step * int i + int W - (int C - 1) * step)]"
  obtains t' where "initial_band step C W y i t = Some t'" "shape t' = [B, C, H, W]"
proof -
  define lo where "lo = step * int i"
  define hi where "hi = step * int i + int W - (int C - 1) * step"
  obtain src where src: "narrow 2 lo hi y = Some src" "shape src = [By, Hy, slice_len Wy lo hi]"
    using y by (simp add: narrow_def)
  obtain band where band: "select 1 i t = Some band" "shape band = [B, H, W]"
    using t i by (simp add: select_def)
  obtain band' where band': "set_narrow 2 lo hi band src = Some band'" "shape band' = [B, H, W]"
    using band(2) src(2) fit by (simp add: set_narrow_def lo_def hi_def Let_def)
  obtain t' where t': "set_select 1 i t band' = Some t'" "shape t' = [B, C, H, W]"
    using t i band'(2) by (simp add: set_select_def bshape_same)
  show ?thesis
  proof (rule that[of t'])
    show "initial_band step C W y i t = Some t'"
      using y src(1) band(1) band'(1) t'(1)
      by (simp add: initial_band_def lo_def hi_def Let_def)
  qed (rule t'(2))
qed

lemma initial_loop:
  assumes t: "shape t = [B, C, H, W]" and fit: "measurement_fits step B C H W (shape y)"
    and k: "k \<le> C"
  shows "\<exists>t'. for_each (initial_band step C W y) [0..<k] t = Some t' \<and> shape t' = [B, C, H, W]"
  using k
proof (induction k)
  case 0
  then show ?case using t by simp
next
  case (Suc k)
  then obtain t1 where t1: "for_each (initial_band step C W y) [0..<k] t = Some t1"
    "shape t1 = [B, C, H, W]" by auto
  from fit obtain By Hy Wy where y: "shape y = [By, Hy, Wy]"
    by (auto simp: measurement_fits_def split: list.splits)
  have kC: "k < C" using Suc.prems by simp
  have "bshape [By, Hy, slice_len Wy (step * int k) (step * int k + int W - (int C - 1) * step)]
                [B, H, slice_len W (step * int k) (step * int k + int W - (int C - 1) * step)]
              = Some [B, H, slice_len W (step * int k) (step * int k + int W - (int C - 1) * step)]"
    using fit kC unfolding y measurement_fits_def by (simp add: Let_def)
  from initial_band_value[OF t1(2) y kC this]
  obtain t2 where "initial_band step C W y k t1 = Some t2" "shape t2 = [B, C, H, W]" by auto
  then show ?case using t1(1) by (auto simp: for_each_append)
qed

lemma initial_value:
  assumes Phi: "shape Phi = [B, C, H, W]"
    and fit: "measurement_fits (STEP (cfg m)) B C H W (shape y)"
    and fus: "maps_shape (fusion m) [B, C + C, H, W] [B, C, H, W]"
  obtains z0 where "initial m y Phi = Some z0" "shape z0 = [B, C, H, W]"
proof -
  obtain t0 where t0: "zeros [int B, int C, int H, int W] = Some t0" "shape t0 = [B, C, H, W]"
    by (simp add: zeros_def)
  from initial_loop[OF t0(2) fit order_refl]
  obtain t1 where t1: "for_each (initial_band (STEP (cfg m)) C W y) [0..<C] t0 = Some t1"
    "shape t1 = [B, C, H, W]" by auto
  obtain inp where inp: "cat 1 t1 Phi = Some inp" "shape inp = [B, C + C, H, W]"
    using cat_1_of_4[OF t1(2) Phi] by blast
  obtain z0 where z0: "fusion m inp = Some z0" "shape z0 = [B, C, H, W]"
    using maps_shapeD[OF fus inp(2)] by blast
  show ?thesis
  proof (rule that[of z0])
    show "initial m y Phi = Some z0"
      using Phi t0(1) t1(1) inp(1) z0(1) by (simp add: initial_def)
  qed (rule z0(2))
qed

lemma measurement_fits_same: "measurement_fits step B C H W [B, H, W]"
  by (simp add: measurement_fits_def bshape_same Let_def)



lemma forward_test_value:
  assumes mask: "shape (data_mask dat) = [B, C, H, W]"
    and cube: "shape (data_H dat) = [B', C', H_0, W_0]"
    and W: "int W = int W_0 + (int C - 1) * 2" and C: "0 < C"
    and fit: "measurement_fits (STEP (cfg m)) B C H W (shape (data_Y dat))"
    and y: "0 < STAGE (cfg m) \<Longrightarrow> bshape (shape (data_Y dat)) [B, H, W] = Some [B, H, W]"
    and fus: "maps_shape (fusion m) [B, C + C, H, W] [B, C, H, W]"
    and n: "STAGE (cfg m) \<le> int W"
    and nets: "\<And>i. int i < STAGE (cfg m) \<Longrightarrow> stage_nets m i B C H W W_0"
  obtains out where "forward_test m dat = Some out" "shape out = [B, C, H, W_0]"
proof -
  obtain z0 where z0: "initial m (data_Y dat) (data_mask dat) = Some z0" "shape z0 = [B, C, H, W]"
    by (rule initial_value[OF mask fit fus])
  define st0 where "st0 = \<lparr>phi = data_mask dat, z = z0, z_hat = z0, z_list = [z0]\<rparr>"
  have st0: "forward_test_init m dat = Some st0" "loop_inv B C H W st0"
    using z0 mask by (simp_all add: forward_test_init_def st0_def loop_inv_def)
  obtain beta where beta: "beta_of W = Some beta"
    "shape beta = [W, 1]" by (rule beta_value)
  have "\<exists>st. for_each (stage m (data_Y dat) beta W_0) [0..<nat (STAGE (cfg m))] st0 = Some st \<and>
     loop_inv B C H W st"
  proof (cases "0 < STAGE (cfg m)")
    case True
    show ?thesis
    proof (rule loop_progress[OF st0(2) y[OF True] beta(2) _ W C])
      show "nat (STAGE (cfg m)) \<le> W" using n by simp
      show "stage_nets m i B C H W W_0" if "i < nat (STAGE (cfg m))" for i
        using that by (intro nets) simp
    qed
  next
    case False
    then show ?thesis using st0(2) by simp
  qed
  then obtain st where st: "for_each (stage m (data_Y dat) beta W_0) [0..<nat (STAGE (cfg m))] st0 = Some st"
    "loop_inv B C H W st" by blast
  have zs: "shape (z st) = [B, C, H, W]" using st(2) by (simp add: loop_inv_def)
  have W0: "W_0 \<le> W" using W C by simp
  obtain zb where zb: "shift_back_3d (z st) 2 = Some zb" "shape zb = [B, C, H, W]"
    by (rule shift_back_3d_value[OF zs, of 2])
  obtain zc where zc: "narrow 3 0 (int W_0) zb = Some zc" "shape zc = [B, C, H, W_0]"
    by (rule narrow_3_prefix[OF zb(2) W0])
  obtain out where out: "narrow 3 0 (int W_0) zc = Some out" "shape out = [B, C, H, W_0]"
    by (rule narrow_3_prefix[OF zc(2) order_refl])
  show ?thesis
  proof (rule that[of out])
    show "forward_test m dat = Some out"
      using st0(1) mask cube beta(1) st(1) zb(1) zc(1) out(1)
      by (simp add: forward_test_def)
  qed (rule out(2))
qed

lemma maps_shape_zero_net: "maps_shape (zero_net s') s s'"
  by (simp add: maps_shape_def zero_net_def)

lemma maps_shape_Some: "maps_shape Some s s"
  by (simp add: maps_shape_def)

lemma example_fusion: "maps_shape (fusion example_net) [1, 2 + 2, 2, 3] [1, 2, 2, 3]"
  by (simp add: maps_shape_def example_net_def narrow_def slice_len_def slice_norm_def)

lemma example_stage_nets: "stage_nets example_net i 1 2 2 3 1"
proof -
  have a: "maps_shape (zero_net [1, 2, 2, 3]) [1, 2 + 2, 2, 3] [1, 2, 2, 3]"
    by (rule maps_shape_zero_net)
  have b: "maps_shape (zero_net [1, 4, 1, 2]) [1, 2, 2, 3] [1, 4, Suc 0, Suc 1]"
    using maps_shape_zero_net[of "[1, 4, 1, 2]" "[1, 2, 2, 3]"] by (simp add: numeral_2_eq_2)
  have c: "maps_shape (zero_net [1, 2, 1, 1]) [1, 4, 1, 1] [1, 2, 1, 1]"
    by (rule maps_shape_zero_net)
  have "DADN_shapes \<lparr>DL = zero_net [1, 2, 2, 3], down_sample = zero_net [1, 4, 1, 2],
               mlp_convs = zero_net [1, 2, 1, 1]\<rparr> 1 2 2 3"
    unfolding DADN_shapes_def using a b c by auto
  then show ?thesis
    using maps_shape_Some[of "[1, 2, 2, 1]"]
    by (simp add: stage_nets_def example_net_def example_cfg_def stage_module_def)
qed


section \<open>The data-consistency step\<close>



section \<open>The input mask across the stages\<close>


lemma example_init:
  obtains st0 where "forward_test_init example_net example_data = Some st0"
    "loop_inv 1 2 2 3 st0"
proof -
  have mask: "shape (data_mask example_data) = [1, 2, 2, 3]"
    by (simp add: example_data_def tensor_of_def)
  have fit: "measurement_fits (STEP (cfg example_net)) 1 2 2 3 (shape (data_Y example_data))"
    using measurement_fits_same[of 2 1 2 2 3]
    by (simp add: example_data_def tensor_of_def example_net_def example_cfg_def)
  obtain z0 where z0: "initial example_net (data_Y example_data) (data_mask example_data) = Some z0"
    "shape z0 = [1, 2, 2, 3]"
    by (rule initial_value[OF mask fit example_fusion])
  show ?thesis
  proof (rule that)
    show "forward_test_init example_net example_data =
        Some \<lparr>phi = data_mask example_data, z = z0, z_hat = z0, z_list = [z0]\<rparr>"
      using z0(1) by (simp add: forward_test_init_def)
    show "loop_inv 1 2 2 3 \<lparr>phi = data_mask example_data, z = z0, z_hat = z0, z_list = [z0]\<rparr>"
      using z0(2) mask by (simp add: loop_inv_def)
  qed
qed

lemma example_stage:
  assumes "loop_inv 1 2 2 3 st" "i < 3"
  obtains beta st' where "beta_of 3 = Some beta"
    "stage example_net (data_Y example_data) beta 1 i st = Some st'" "loop_inv 1 2 2 3 st'"
proof -
  obtain beta where beta: "beta_of 3 = Some beta" "shape beta = [3, 1]" by (rule beta_value)
  have y: "bshape (shape (data_Y example_data)) [1, 2, 3] = Some [1, 2, 3]"
    using bshape_same[of "[1, 2, 3]"] by (simp add: example_data_def tensor_of_def)
  have W: "int 3 = int 1 + (int 2 - 1) * 2" by simp
  obtain st' where "stage example_net (data_Y example_data) beta 1 i st = Some st'"
    "loop_inv 1 2 2 3 st'"
    using stage_progress[OF assms(1) y beta(2) assms(2) W _ example_stage_nets] by auto
  then show ?thesis using that beta(1) by blast
qed

lemma example_degradation:
  assumes "loop_inv 1 2 2 3 st"
  obtains Phi mu nl where "degradation example_net i (z st) (phi st) = Some (Phi, mu, nl)"
    "shape Phi = [1, 2, 2, 3]" "bshape (shape mu) [1, 2, 3] = Some [1, 2, 3]"
proof -
  from assms have sh: "shape (z st) = [1, 2, 2, 3]" "shape (phi st) = [1, 2, 2, 3]"
    by (simp_all add: loop_inv_def)
  from example_stage_nets[of i] obtain dp where
    dp: "stage_module (cfg example_net) (DP example_net) i = Some dp" "DADN_shapes dp 1 2 2 3"
    unfolding stage_nets_def by blast
  obtain Phi mu nl where "degradation example_net i (z st) (phi st) = Some (Phi, mu, nl)"
    "shape Phi = [1, 2, 2, 3]" "bshape (shape mu) [1, 2, 3] = Some [1, 2, 3]"
    "shape nl = [1, 1, 1, 1]"
    "\<And>b h w. b < 1 \<Longrightarrow> h < 2 \<Longrightarrow> w < 3 \<Longrightarrow> 1 / 1000000 \<le> el mu (bidx (shape mu) [b, h, w])"
    "\<not> WITH_DL (cfg example_net) \<Longrightarrow> Phi = phi st"
    using degradation_value[OF sh dp] by blast
  then show ?thesis using that by blast
qed


theorem momentum_point_witness:
  "\<exists>st0 beta st.
     forward_test_init example_net example_data = Some st0 \<and>
     for_each (stage example_net (data_Y example_data) beta 1) [0..<0] st0 = Some st0 \<and>
     stage example_net (data_Y example_data) beta 1 0 st0 = Some st \<and>
     beta_of 3 = Some beta \<and>
     shape (z st0) = [1, 2, 2, 3] \<and> shape (z st) = [1, 2, 2, 3] \<and>
     el (z_hat st) [0, 1, 1, 2] =
       el (z st) [0, 1, 1, 2] + 0.5 * (el (z st) [0, 1, 1, 2] - el (z st0) [0, 1, 1, 2])"
proof -
  obtain st0 where st0: "forward_test_init example_net example_data = Some st0"
    "loop_inv 1 2 2 3 st0" by (rule example_init)
  obtain beta st where st: "beta_of 3 = Some beta"
    "stage example_net (data_Y example_data) beta 1 0 st0 = Some st" "loop_inv 1 2 2 3 st"
    using example_stage[OF st0(2), of 0] by auto
  have run: "for_each (stage example_net (data_Y example_data) beta 1) [0..<0] st0 = Some st0"
    by simp
  have s0: "shape (z st0) = [1, 2, 2, 3]" and s1: "shape (z st) = [1, 2, 2, 3]"
    using st0(2) st(3) by (simp_all add: loop_inv_def)
  from momentum_point[OF st0(1) run st(2) st(1) s0 s1]
  have "el (z_hat st) [0, 1, 1, 2] =
       el (z st) [0, 1, 1, 2] + 0.5 * (el (z st) [0, 1, 1, 2] - el (z st0) [0, 1, 1, 2])"
    by simp
  with st0(1) run st(1,2) s0 s1 show ?thesis by blast
qed


section \<open>Measurement and mask of different extent\<close>

lemma init_loop_inv:
  assumes init: "forward_test_init m dat = Some st0"
    and mask: "shape (data_mask dat) = [B, C, H, W]"
    and fit: "measurement_fits (STEP (cfg m)) B C H W (shape (data_Y dat))"
    and fus: "maps_shape (fusion m) [B, C + C, H, W] [B, C, H, W]"
  shows "loop_inv B C H W st0"
proof -
  obtain z0 where z0: "initial m (data_Y dat) (data_mask dat) = Some z0" "shape z0 = [B, C, H, W]"
    by (rule initial_value[OF mask fit fus])
  then have "st0 = \<lparr>phi = data_mask dat, z = z0, z_hat = z0, z_list = [z0]\<rparr>"
    using init by (simp add: forward_test_init_def)
  then show ?thesis using z0(2) mask by (simp add: loop_inv_def)
qed

lemma beta_shape: "beta_of W = Some beta \<Longrightarrow> shape beta = [W, 1]"
  by (auto simp: beta_of_def ones_def t_map_def split: if_splits)

lemma Phi_s_of_value:
  assumes "shape Phi = [B, C, H, W]"
  obtains Ps where "Phi_s_of Phi = Some Ps" "shape Ps = [B, H, W]"
    "\<And>b h w. el Ps [b, h, w] = spec_Phi_s Phi C b h w"
  using assms by (simp add: Phi_s_of_def sum_dim_def t_map_def spec_Phi_s_def)

lemma spec_Phi_s_pos: "0 < spec_Phi_s Phi C b h w"
  by (simp add: spec_Phi_s_def sum_nonneg less_le)



lemma example_cfg_values:
  "STEP (cfg example_net) = 2" "STAGE (cfg example_net) = 1" "\<not> WITH_DL (cfg example_net)"
  by (simp_all add: example_net_def example_cfg_def)



section \<open>An all-zero mask\<close>

text \<open>
  Division by zero for an all-zero input mask, over the real numbers. Let the measurement,
  mask and cube have matching shapes, let there be at most as many stages as the mask has
  columns, and let the layers accept the shapes of the loop. Then \<open>forward_test\<close> returns
  an estimate, so no division by zero occurs in any stage; and at every stage, for the mask
  and step size the degradation step returns, \<open>Phi_s\<close> is computed with every entry
  positive, \<open>mu + Phi_s\<close> is computed with every entry above \<open>1e-6\<close>, and \<open>Phi_s\<close> is 1
  everywhere when the mask refinement is switched off (the band sum of the zero mask is zero
  and is replaced by 1). This is the part of the zero-mask requirement that exact arithmetic
  can state: the entries of a tensor are real numbers here, so the overflow of a 32-bit
  float to infinity, and with it the absence of NaN and infinity that the requirement
  speaks of, is outside the model.
\<close>

theorem zero_mask_denominators:
  assumes mask: "shape (data_mask dat) = [B, C, H, W]"
    and zero: "\<forall>b<B. \<forall>c<C. \<forall>h<H. \<forall>w<W. el (data_mask dat) [b, c, h, w] = 0"
    and cube: "shape (data_H dat) = [B', C', H_0, W_0]"
    and W: "int W = int W_0 + (int C - 1) * 2" and C: "0 < C"
    and y: "shape (data_Y dat) = [B, H, W]"
    and fus: "maps_shape (fusion m) [B, C + C, H, W] [B, C, H, W]"
    and n: "STAGE (cfg m) \<le> int W"
    and nets: "\<And>i. int i < STAGE (cfg m) \<Longrightarrow> stage_nets m i B C H W W_0"
  shows "(\<exists>out. forward_test m dat = Some out \<and> shape out = [B, C, H, W_0]) \<and>
    (\<forall>i st0 beta st Phi mu nl.
       int i < STAGE (cfg m) \<and> forward_test_init m dat = Some st0 \<and> beta_of W = Some beta \<and>
       for_each (stage m (data_Y dat) beta W_0) [0..<i] st0 = Some st \<and>
       degradation m i (z st) (phi st) = Some (Phi, mu, nl) \<longrightarrow>
       (\<exists>Phi_s d. Phi_s_of Phi = Some Phi_s \<and> t_add mu Phi_s = Some d \<and>
          (\<forall>b<B. \<forall>h<H. \<forall>w<W.
             0 < el Phi_s [b, h, w] \<and> 1 / 1000000 < el d [b, h, w] \<and>
             (\<not> WITH_DL (cfg m) \<longrightarrow> el Phi_s [b, h, w] = 1))))"
proof -
  have fit: "measurement_fits (STEP (cfg m)) B C H W (shape (data_Y dat))"
    unfolding y by (rule measurement_fits_same)
  have ys: "bshape (shape (data_Y dat)) [B, H, W] = Some [B, H, W]"
    unfolding y by (rule bshape_same)
  have final: "\<exists>out. forward_test m dat = Some out \<and> shape out = [B, C, H, W_0]"
    using forward_test_value[OF mask cube W C fit ys fus n nets] by blast
  have stagewise: "\<exists>Phi_s d. Phi_s_of Phi = Some Phi_s \<and> t_add mu Phi_s = Some d \<and>
          (\<forall>b<B. \<forall>h<H. \<forall>w<W.
             0 < el Phi_s [b, h, w] \<and> 1 / 1000000 < el d [b, h, w] \<and>
             (\<not> WITH_DL (cfg m) \<longrightarrow> el Phi_s [b, h, w] = 1))"
    if i: "int i < STAGE (cfg m)" and init: "forward_test_init m dat = Some st0"
      and beta: "beta_of W = Some beta"
      and run: "for_each (stage m (data_Y dat) beta W_0) [0..<i] st0 = Some st"
      and deg: "degradation m i (z st) (phi st) = Some (Phi, mu, nl)"
    for i st0 beta st Phi mu nl
  proof -
    have inv0: "loop_inv B C H W st0" by (rule init_loop_inv[OF init mask fit fus])
    have iW: "i \<le> W" using i n by simp
    have "\<exists>st'. for_each (stage m (data_Y dat) beta W_0) [0..<i] st0 = Some st' \<and>
        loop_inv B C H W st'"
    proof (rule loop_progress[OF inv0 ys beta_shape[OF beta] iW W C])
      fix j assume "j < i"
      then have "int j < STAGE (cfg m)" using i by simp
      then show "stage_nets m j B C H W W_0" by (rule nets)
    qed
    then have inv: "loop_inv B C H W st" using run by simp
    then have sh: "shape (z st) = [B, C, H, W]" "shape (phi st) = [B, C, H, W]"
      by (simp_all add: loop_inv_def)
    have ph: "phi st = data_mask dat" using loop_phi[OF run] init_state(1)[OF init] by simp
    from nets[OF i] obtain dp where dp: "stage_module (cfg m) (DP m) i = Some dp"
      "DADN_shapes dp B C H W" unfolding stage_nets_def by blast
    obtain Phi' mu' nl' where d': "degradation m i (z st) (phi st) = Some (Phi', mu', nl')"
      "shape Phi' = [B, C, H, W]" "bshape (shape mu') [B, H, W] = Some [B, H, W]"
      "shape nl' = [B, 1, 1, 1]"
      "\<And>b h w. b < B \<Longrightarrow> h < H \<Longrightarrow> w < W \<Longrightarrow> 1 / 1000000 \<le> el mu' (bidx (shape mu') [b, h, w])"
      "\<not> WITH_DL (cfg m) \<Longrightarrow> Phi' = phi st"
      using degradation_value[OF sh dp] by blast
    have eq: "Phi' = Phi" "mu' = mu" using deg d'(1) by simp_all
    note dv = d'(2,3,5,6)[unfolded eq]
    obtain Ps where Ps: "Phi_s_of Phi = Some Ps" "shape Ps = [B, H, W]"
      "\<And>b h w. el Ps [b, h, w] = spec_Phi_s Phi C b h w"
      using Phi_s_of_value[OF dv(1)] by blast
    have bs: "bshape (shape mu) (shape Ps) = Some [B, H, W]" unfolding Ps(2) by (rule dv(2))
    obtain d where d: "bop (+) mu Ps = Some d" "shape d = [B, H, W]"
      "\<And>idx. el d idx = el mu (bidx (shape mu) idx) + el Ps (bidx (shape Ps) idx)"
      using bop_bcast[OF bs] by blast
    have point: "0 < el Ps [b, h, w] \<and> 1 / 1000000 < el d [b, h, w] \<and>
             (\<not> WITH_DL (cfg m) \<longrightarrow> el Ps [b, h, w] = 1)"
      if v: "b < B" "h < H" "w < W" for b h w
    proof -
      have p: "0 < el Ps [b, h, w]" unfolding Ps(3) by (rule spec_Phi_s_pos)
      have "el d [b, h, w] = el mu (bidx (shape mu) [b, h, w]) + el Ps [b, h, w]"
        unfolding d(3) Ps(2) using v by (simp add: bidx_valid)
      then have q: "1 / 1000000 < el d [b, h, w]" using dv(3)[OF v] p by simp
      have r: "el Ps [b, h, w] = 1" if "\<not> WITH_DL (cfg m)"
      proof -
        have "Phi = data_mask dat" using dv(4)[OF that] ph by simp
        then have "el Phi [b, n, h, w] = 0" if "n < C" for n using zero v that by simp
        then show ?thesis unfolding Ps(3) by (simp add: spec_Phi_s_def)
      qed
      show ?thesis using p q r by blast
    qed
    show ?thesis using Ps(1) d(1) point by (auto simp: t_add_def)
  qed
  show ?thesis using final stagewise by blast
qed

lemma zero_mask_shapes:
  "shape (data_Y zero_mask_data) = [1, 2, 3]" "shape (data_mask zero_mask_data) = [1, 2, 2, 3]"
  "shape (data_H zero_mask_data) = [1, 2, 2, 1]" "el (data_mask zero_mask_data) idx = 0"
  by (simp_all add: zero_mask_data_def tensor_of_def)

theorem zero_mask_denominators_witness:
  "\<exists>out st0 beta Phi mu nl Phi_s d.
     forward_test example_net zero_mask_data = Some out \<and> shape out = [1, 2, 2, 1] \<and>
     forward_test_init example_net zero_mask_data = Some st0 \<and> beta_of 3 = Some beta \<and>
     for_each (stage example_net (data_Y zero_mask_data) beta 1) [0..<0] st0 = Some st0 \<and>
     degradation example_net 0 (z st0) (phi st0) = Some (Phi, mu, nl) \<and>
     Phi_s_of Phi = Some Phi_s \<and> t_add mu Phi_s = Some d \<and>
     el Phi_s [0, 1, 2] = 1 \<and> 1 / 1000000 < el d [0, 1, 2]"
proof -
  have W: "int 3 = int 1 + (int 2 - 1) * 2" by simp
  have C: "(0::nat) < 2" by simp
  have zero: "\<forall>b<1. \<forall>c<2. \<forall>h<2. \<forall>w<3. el (data_mask zero_mask_data) [b, c, h, w] = 0"
    by (simp add: zero_mask_shapes(4))
  have n: "STAGE (cfg example_net) \<le> int 3" by (simp add: example_cfg_values)
  note main = zero_mask_denominators[OF zero_mask_shapes(2) zero zero_mask_shapes(3) W C
      zero_mask_shapes(1) example_fusion n example_stage_nets]
  from main obtain out where out: "forward_test example_net zero_mask_data = Some out"
    "shape out = [1, 2, 2, 1]" by blast
  have fit: "measurement_fits (STEP (cfg example_net)) 1 2 2 3 (shape (data_Y zero_mask_data))"
    unfolding zero_mask_shapes by (rule measurement_fits_same)
  obtain z0 where z0: "initial example_net (data_Y zero_mask_data) (data_mask zero_mask_data) = Some z0"
    "shape z0 = [1, 2, 2, 3]"
    by (rule initial_value[OF zero_mask_shapes(2) fit example_fusion])
  define st0 where "st0 = \<lparr>phi = data_mask zero_mask_data, z = z0, z_hat = z0, z_list = [z0]\<rparr>"
  have init: "forward_test_init example_net zero_mask_data = Some st0"
    using z0(1) by (simp add: forward_test_init_def st0_def)
  have inv: "loop_inv 1 2 2 3 st0"
    by (rule init_loop_inv[OF init zero_mask_shapes(2) fit example_fusion])
  obtain beta where beta: "beta_of 3 = Some beta" "shape beta = [3, 1]" by (rule beta_value)
  obtain Phi mu nl where deg: "degradation example_net 0 (z st0) (phi st0) = Some (Phi, mu, nl)"
    "shape Phi = [1, 2, 2, 3]" "bshape (shape mu) [1, 2, 3] = Some [1, 2, 3]"
    by (rule example_degradation[OF inv])
  have run: "for_each (stage example_net (data_Y zero_mask_data) beta 1) [0..<0] st0 = Some st0"
    by simp
  have i: "int 0 < STAGE (cfg example_net)" by (simp add: example_cfg_values)
  from main i init beta(1) run deg(1)
  have "\<exists>Phi_s d. Phi_s_of Phi = Some Phi_s \<and> t_add mu Phi_s = Some d \<and>
          (\<forall>b<1. \<forall>h<2. \<forall>w<3.
             0 < el Phi_s [b, h, w] \<and> 1 / 1000000 < el d [b, h, w] \<and>
             (\<not> WITH_DL (cfg example_net) \<longrightarrow> el Phi_s [b, h, w] = 1))"
    by blast
  then obtain Phi_s d where "Phi_s_of Phi = Some Phi_s" "t_add mu Phi_s = Some d"
    "el Phi_s [0, 1, 2] = 1" "1 / 1000000 < el d [0, 1, 2]"
    using example_cfg_values(3) by auto
  with out init beta(1) run deg(1) show ?thesis by blast
qed

lemma ravel_lt: "list_all2 (<) idx s \<Longrightarrow> ravel s idx < prod_list s"
proof (induction idx s rule: list_all2_induct)
  case Nil
  then show ?case by simp
next
  case (Cons i idx n s)
  have "i * prod_list s + ravel s idx < i * prod_list s + prod_list s" using Cons.IH by simp
  also have "\<dots> = Suc i * prod_list s" by simp
  also have "\<dots> \<le> n * prod_list s" using Cons.hyps(1) by (intro mult_le_mono1) simp
  finally show ?case by simp
qed

lemma unravel_ravel: "list_all2 (<) idx s \<Longrightarrow> unravel s (ravel s idx) = idx"
proof (induction idx s rule: list_all2_induct)
  case Nil
  then show ?case by simp
next
  case (Cons i idx n s)
  have r: "ravel s idx < prod_list s" by (rule ravel_lt[OF Cons.hyps(2)])
  then show ?case using Cons.IH by simp
qed

lemma reshape_el:
  assumes "list_all2 (<) idx' (shape t)" "ravel s idx = ravel (shape t) idx'"
  shows "el (reshape_to s t) idx = el t idx'"
  using assms by (simp add: reshape_to_def unravel_ravel)

lemma nonneg_ints: "list_all (\<lambda>d. 0 \<le> d) (map int s)"
  by (induction s) auto

lemma filter_ints:
  "filter (\<lambda>d. 0 \<le> d) (map int s) = map int s" "filter (\<lambda>d. d < 0) (map int s) = []"
  "map (\<lambda>d. if d < 0 then x else nat d) (map int s) = s" "map nat (map int s) = s"
  by (induction s) auto

lemma view_known:
  assumes "prod_list s = prod_list (shape t)"
  shows "view (map int s) t = Some (reshape_to s t)"
  using assms by (simp add: view_def filter_ints del: map_map)

lemma view_last_inferred:
  assumes "prod_list pre \<noteq> 0" "prod_list (shape t) = prod_list pre * c"
  shows "view (map int pre @ [- 1]) t = Some (reshape_to (pre @ [c]) t)"
  using assms by (simp add: view_def filter_ints Let_def del: map_map)

lemma view_first_inferred:
  assumes "prod_list post \<noteq> 0" "prod_list (shape t) = c * prod_list post"
  shows "view (- 1 # map int post) t = Some (reshape_to (c # post) t)"
  using assms by (simp add: view_def filter_ints Let_def del: map_map)

lemma in_window: "i < ws \<Longrightarrow> j < ws \<Longrightarrow> i * ws + j < ws * (ws::nat)"
proof -
  assume a: "i < ws" "j < ws"
  have "i * ws + j < i * ws + ws" using a(2) by simp
  also have "\<dots> = Suc i * ws" by simp
  also have "\<dots> \<le> ws * ws" using a(1) by (intro mult_le_mono1) simp
  finally show ?thesis .
qed

lemma div_window: "n < ws * ws \<Longrightarrow> n div ws < (ws::nat)"
  by (simp add: less_mult_imp_div_less)

lemma split_index: "0 < ws \<Longrightarrow> n * C = (n div ws) * (ws * C) + (n mod ws) * (C::nat)"
proof -
  have "(n div ws) * (ws * C) + (n mod ws) * C = (n div ws * ws + n mod ws) * C"
    by (simp only: add_mult_distrib mult.assoc)
  also have "\<dots> = n * C" by simp
  finally show ?thesis by (rule sym)
qed

lemma permute_value:
  assumes "length perm = length (shape t)" "distinct perm"
    "list_all (\<lambda>p. p < length (shape t)) perm"
  shows "permute perm t = Some \<lparr>shape = map (\<lambda>p. shape t ! p) perm,
            el = (\<lambda>idx. el t (map (\<lambda>d. idx ! position perm d) [0..<length perm]))\<rparr>"
  using assms by (simp add: permute_def)

lemma window_partition_single:
  assumes t: "shape t = [B, nh, ws * ws, C]" and pos: "0 < B" "0 < nh" "0 < ws" "0 < C"
  obtains r where "window_partition B nh 1 1 ws C t = Some r" "shape r = [B, nh, ws * ws, C]"
    "\<And>b h n c. b < B \<Longrightarrow> h < nh \<Longrightarrow> n < ws * ws \<Longrightarrow> c < C \<Longrightarrow>
        el r [b, h, n, c] = el t [b, h, n, c]"
proof -
  define t1 where "t1 = reshape_to [B, nh, 1, ws, 1, ws, C] t"
  have v1: "view [int B, int nh, int 1, int ws, int 1, int ws, - 1] t = Some t1"
    using view_last_inferred[of "[B, nh, 1, ws, 1, ws]" t C] t pos
    by (simp add: t1_def)
  have s1: "shape t1 = [B, nh, 1, ws, 1, ws, C]" by (simp add: t1_def reshape_to_def)
  have e1: "el t1 [b, h, 0, i, 0, j, c] = el t [b, h, i * ws + j, c]"
    if "b < B" "h < nh" "i < ws" "j < ws" "c < C" for b h i j c
    unfolding t1_def
  proof (rule reshape_el)
    show "list_all2 (<) [b, h, i * ws + j, c] (shape t)"
      using that in_window[of i ws j] by (simp add: t)
    show "ravel [B, nh, 1, ws, 1, ws, C] [b, h, 0, i, 0, j, c] = ravel (shape t) [b, h, i * ws + j, c]"
      by (simp add: t algebra_simps)
  qed
  define t2 where "t2 = \<lparr>shape = map (\<lambda>p. shape t1 ! p) [0, 2, 4, 1, 3, 5, 6],
            el = (\<lambda>idx. el t1 (map (\<lambda>d. idx ! position [0, 2, 4, 1, 3, 5, 6] d) [0..<length [0::nat, 2, 4, 1, 3, 5, 6]]))\<rparr>"
  have v2: "permute [0, 2, 4, 1, 3, 5, 6] t1 = Some t2"
    unfolding t2_def by (rule permute_value) (simp_all add: s1)
  have s2: "shape t2 = [B, 1, 1, nh, ws, ws, C]" by (simp add: t2_def s1)
  have e2: "el t2 [b, g, g', h, i, j, c] = el t1 [b, h, g, i, g', j, c]" for b g g' h i j c
    by (simp add: t2_def position_def upt_rec)
  define t3 where "t3 = reshape_to [B, nh, ws * ws, C] t2"
  have v3: "view [- 1, int nh, int (ws * ws), int C] t2 = Some t3"
    using view_first_inferred[of "[nh, ws * ws, C]" t2 B] s2 pos
    by (simp add: t3_def)
  have s3: "shape t3 = [B, nh, ws * ws, C]" by (simp add: t3_def reshape_to_def)
  have e3: "el t3 [b, h, n, c] = el t2 [b, 0, 0, h, n div ws, n mod ws, c]"
    if "b < B" "h < nh" "n < ws * ws" "c < C" for b h n c
    unfolding t3_def
  proof (rule reshape_el)
    show "list_all2 (<) [b, 0, 0, h, n div ws, n mod ws, c] (shape t2)"
      using that pos div_window[of n ws] by (simp add: s2)
    show "ravel [B, nh, ws * ws, C] [b, h, n, c] = ravel (shape t2) [b, 0, 0, h, n div ws, n mod ws, c]"
      using split_index[OF pos(3), of n C] by (simp add: s2 algebra_simps)
  qed
  show ?thesis
  proof (rule that[of t3])
    show "window_partition B nh 1 1 ws C t = Some t3"
      using v1 v2 v3 by (simp add: window_partition_def)
    show "shape t3 = [B, nh, ws * ws, C]" by (rule s3)
    fix b h n c assume a: "b < B" "h < nh" "n < ws * ws" "c < C"
    have d: "n div ws < ws" "n mod ws < ws" using a(3) pos(3) by (simp_all add: div_window)
    show "el t3 [b, h, n, c] = el t [b, h, n, c]"
      using e3[OF a] e2 e1[OF a(1,2) d a(4)] by simp
  qed
qed

section \<open>A single window is full attention\<close>

lemma transpose_last_4:
  assumes "shape t = [B, h, N, C]"
  obtains r where "transpose_dims (- 2) (- 1) t = Some r" "shape r = [B, h, C, N]"
    "\<And>b g n c. el r [b, g, c, n] = el t [b, g, n, c]"
  using assms by (simp add: transpose_dims_def permute_def position_def upt_rec Let_def eval_nat_numeral)

lemma transpose_12_4:
  assumes "shape t = [B, h, N, C]"
  obtains r where "transpose_dims 1 2 t = Some r" "shape r = [B, N, h, C]"
    "\<And>b g n c. el r [b, n, g, c] = el t [b, g, n, c]"
  using assms by (simp add: transpose_dims_def permute_def position_def upt_rec Let_def eval_nat_numeral)

lemma bidx_2: "i < B \<Longrightarrow> g < h \<Longrightarrow> bidx [B, h] [i, g] = [i, g]"
  by (simp add: bidx_valid)

lemma matmul_4:
  assumes "shape a = [B, h, N, K]" "shape b = [B, h, K, M]"
  obtains r where "matmul a b = Some r" "shape r = [B, h, N, M]"
    "\<And>i g n j. i < B \<Longrightarrow> g < h \<Longrightarrow>
       el r [i, g, n, j] = (\<Sum>k<K. el a [i, g, n, k] * el b [i, g, k, j])"
  using assms by (simp add: matmul_def bshape_same bidx_2 Let_def eval_nat_numeral)

lemma softmax_4:
  assumes "shape t = [B, h, N, M]"
  obtains r where "softmax t = Some r" "shape r = [B, h, N, M]"
    "\<And>b g n j. el r [b, g, n, j] = exp (el t [b, g, n, j]) / (\<Sum>i<M. exp (el t [b, g, n, i]))"
  using assms by (simp add: softmax_def eval_nat_numeral)

lemma length_concat_table:
  "length (concat (map (\<lambda>n. map (f n) [0..<Q]) [0..<R])) = R * Q"
  by (induction R) simp_all

lemma concat_table_nth:
  "n < R \<Longrightarrow> m < Q \<Longrightarrow> concat (map (\<lambda>n. map (f n) [0..<Q]) [0..<R]) ! (n * Q + m) = f n m"
proof (induction R)
  case 0
  then show ?case by simp
next
  case (Suc R)
  show ?case
  proof (cases "n < R")
    case True
    have "n * Q + m < n * Q + Q" using Suc.prems(2) by simp
    also have "\<dots> = Suc n * Q" by simp
    also have "\<dots> \<le> R * Q" using True by (intro mult_le_mono1) simp
    finally have "n * Q + m < R * Q" .
    then show ?thesis using Suc.IH[OF True Suc.prems(2)]
      by (simp add: nth_append length_concat_table)
  next
    case False
    then have "n = R" using Suc.prems(1) by simp
    then show ?thesis using Suc.prems(2)
      by (simp add: nth_append length_concat_table)
  qed
qed

lemma relative_index_bound:
  assumes "n < ws * ws" "m < ws * ws"
  shows "nat ((coords_flatten ws 0 n - coords_flatten ws 0 m + (int ws - 1)) * (2 * int ws - 1)
             + (coords_flatten ws 1 n - coords_flatten ws 1 m + (int ws - 1)))
         < (2 * ws - 1) * (2 * ws - 1)"
proof -
  have pos: "0 < ws" using assms(1) by (cases ws) simp_all
  define a where "a = int (n div ws) - int (m div ws) + (int ws - 1)"
  define b where "b = int (n mod ws) - int (m mod ws) + (int ws - 1)"
  have dn: "n div ws < ws" "m div ws < ws" using assms by (simp_all add: div_window)
  have mn: "n mod ws < ws" "m mod ws < ws" using pos by simp_all
  have a: "0 \<le> a" "a \<le> 2 * int ws - 2" using dn unfolding a_def by linarith+
  have b: "0 \<le> b" "b \<le> 2 * int ws - 2" using mn unfolding b_def by linarith+
  have w: "0 \<le> 2 * int ws - 1" using pos by simp
  have "a * (2 * int ws - 1) \<le> (2 * int ws - 2) * (2 * int ws - 1)"
    using a(2) w by (rule mult_right_mono)
  then have "a * (2 * int ws - 1) + b \<le> (2 * int ws - 2) * (2 * int ws - 1) + (2 * int ws - 2)"
    using b(2) by simp
  also have "\<dots> < (2 * int ws - 1) * (2 * int ws - 1)" by (simp add: algebra_simps)
  also have "\<dots> = int ((2 * ws - 1) * (2 * ws - 1))" using pos by (simp add: of_nat_diff)
  finally have "a * (2 * int ws - 1) + b < int ((2 * ws - 1) * (2 * ws - 1))" .
  moreover have "0 \<le> a * (2 * int ws - 1) + b" using a(1) b(1) w by simp
  ultimately have "nat (a * (2 * int ws - 1) + b) < (2 * ws - 1) * (2 * ws - 1)" by linarith
  then show ?thesis by (simp add: a_def b_def coords_flatten_def)
qed

lemma relative_index_in_table:
  "list_all (\<lambda>i. i < (2 * ws - 1) * (2 * ws - 1)) (get_relative_position_index ws ws)"
  using relative_index_bound[of _ ws]
  by (auto simp: list_all_iff get_relative_position_index_def)

lemma length_relative_index:
  "length (get_relative_position_index ws ws) = (ws * ws) * (ws * ws)"
  unfolding get_relative_position_index_def by (rule length_concat_table)

lemma index_rows_value:
  assumes "shape t = [R, nh]" "list_all (\<lambda>i. i < R) rows"
  obtains r where "index_rows rows t = Some r" "shape r = [length rows, nh]"
    "\<And>i h. el r [i, h] = el t [rows ! i, h]"
  using assms by (simp add: index_rows_def)

lemma unsqueeze_0_3:
  assumes "shape t = [P, Q, R]"
  obtains r where "unsqueeze 0 t = Some r" "shape r = [1, P, Q, R]"
    "\<And>z p q r'. el r [z, p, q, r'] = el t [p, q, r']"
  using assms by (simp add: unsqueeze_def)

lemma positional_bias_value:
  assumes ws: "window_size m = ws" and pos: "0 < ws" "0 < nh"
    and tab: "shape (relative_position_bias_table m) = [(2 * ws - 1) * (2 * ws - 1), nh]"
    and rpi: "relative_position_index m = get_relative_position_index ws ws"
  obtains pb where "get_relative_positional_bias m = Some pb"
    "shape pb = [1, nh, ws * ws, ws * ws]"
    "\<And>h n i. h < nh \<Longrightarrow> n < ws * ws \<Longrightarrow> i < ws * ws \<Longrightarrow>
       el pb [0, h, n, i]
       = el (relative_position_bias_table m) [relative_position_index m ! (n * (ws * ws) + i), h]"
proof -
  define N where "N = ws * ws"
  have N: "0 < N" using pos by (simp add: N_def)
  obtain t0 where t0: "index_rows (relative_position_index m) (relative_position_bias_table m) = Some t0"
    "shape t0 = [length (relative_position_index m), nh]"
    "\<And>i h. el t0 [i, h] = el (relative_position_bias_table m) [relative_position_index m ! i, h]"
    using index_rows_value[OF tab, of "relative_position_index m"] relative_index_in_table[of ws]
    by (auto simp: rpi)
  have s0: "shape t0 = [N * N, nh]" by (simp add: t0(2) rpi length_relative_index N_def)
  define t1 where "t1 = reshape_to [N, N, nh] t0"
  have v1: "view (map int [N, N] @ [- 1]) t0 = Some (reshape_to ([N, N] @ [nh]) t0)"
    by (rule view_last_inferred) (use N in \<open>simp_all add: s0\<close>)
  have s1: "shape t1 = [N, N, nh]" by (simp add: t1_def reshape_to_def)
  have e1: "el t1 [n, i, h] = el t0 [n * N + i, h]" if "n < N" "i < N" "h < nh" for n i h
    unfolding t1_def
  proof (rule reshape_el)
    show "list_all2 (<) [n * N + i, h] (shape t0)"
      using that in_window[of n N i] by (simp add: s0)
    show "ravel [N, N, nh] [n, i, h] = ravel (shape t0) [n * N + i, h]"
      by (simp add: s0 algebra_simps)
  qed
  define t2 where "t2 = \<lparr>shape = map (\<lambda>p. shape t1 ! p) [2, 0, 1],
            el = (\<lambda>idx. el t1 (map (\<lambda>d. idx ! position [2, 0, 1] d) [0..<length [2::nat, 0, 1]]))\<rparr>"
  have v2: "permute [2, 0, 1] t1 = Some t2"
    unfolding t2_def by (rule permute_value) (simp_all add: s1)
  have s2: "shape t2 = [nh, N, N]" by (simp add: t2_def s1)
  have e2: "el t2 [h, n, i] = el t1 [n, i, h]" for h n i
    by (simp add: t2_def position_def upt_rec)
  obtain pb where pb: "unsqueeze 0 t2 = Some pb" "shape pb = [1, nh, N, N]"
    "\<And>z p q r'. el pb [z, p, q, r'] = el t2 [p, q, r']"
    using unsqueeze_0_3[OF s2] by blast
  show ?thesis
  proof (rule that[of pb])
    show "get_relative_positional_bias m = Some pb"
      using t0(1) v1 v2 pb(1) by (simp add: get_relative_positional_bias_def ws N_def t1_def)
    show "shape pb = [1, nh, ws * ws, ws * ws]" by (simp add: pb(2) N_def)
    fix h n i assume a: "h < nh" "n < ws * ws" "i < ws * ws"
    show "el pb [0, h, n, i]
       = el (relative_position_bias_table m) [relative_position_index m ! (n * (ws * ws) + i), h]"
      using pb(3)[of 0 h n i] e2[of h n i] e1[of n i h] t0(3)[of "n * N + i" h] a
      by (simp add: N_def)
  qed
qed

lemma bias_add_value:
  assumes "shape a = [B, nh, N, M]" "shape pb = [1, nh, N, M]"
  obtains r where "t_add a pb = Some r" "shape r = [B, nh, N, M]"
    "\<And>b h n i. b < B \<Longrightarrow> h < nh \<Longrightarrow> n < N \<Longrightarrow> i < M \<Longrightarrow>
       el r [b, h, n, i] = el a [b, h, n, i] + el pb [0, h, n, i]"
proof -
  have bs: "bshape (shape a) (shape pb) = Some [B, nh, N, M]"
    by (auto simp: assms bshape_def)
  obtain r where r: "bop (+) a pb = Some r" "shape r = [B, nh, N, M]"
    "\<And>idx. el r idx = el a (bidx (shape a) idx) + el pb (bidx (shape pb) idx)"
    using bop_bcast[OF bs, of "(+)"] by blast
  show ?thesis
  proof (rule that[of r])
    show "t_add a pb = Some r" by (simp add: t_add_def r(1))
    show "shape r = [B, nh, N, M]" by (rule r(2))
    fix b h n i assume v: "b < B" "h < nh" "n < N" "i < M"
    have "bidx (shape a) [b, h, n, i] = [b, h, n, i]"
      using v by (simp add: assms bidx_valid)
    moreover have "bidx (shape pb) [b, h, n, i] = [0, h, n, i]"
      using v by (auto simp: assms bidx_def)
    ultimately show "el r [b, h, n, i] = el a [b, h, n, i] + el pb [0, h, n, i]"
      by (simp add: r(3))
  qed
qed

lemma attention_core_bias_value:
  assumes q: "shape q = [B, nh, N, C]" and k: "shape k = [B, nh, M, C]"
    and v: "shape v = [B, nh, M, Cv]" and pb: "shape pb = [1, nh, N, M]"
  obtains x where "attention_core sc (Some pb) q k v = Some x" "shape x = [B, N, nh, Cv]"
    "\<And>b n h c. b < B \<Longrightarrow> n < N \<Longrightarrow> h < nh \<Longrightarrow> c < Cv \<Longrightarrow>
       el x [b, n, h, c]
       = (\<Sum>i<M. exp ((\<Sum>d<C. el q [b, h, n, d] * el k [b, h, i, d]) * sc + el pb [0, h, n, i])
                  / (\<Sum>i'<M. exp ((\<Sum>d<C. el q [b, h, n, d] * el k [b, h, i', d]) * sc
                                   + el pb [0, h, n, i']))
                  * el v [b, h, i, c])"
proof -
  obtain kt where kt: "transpose_dims (- 2) (- 1) k = Some kt" "shape kt = [B, nh, C, M]"
    "\<And>b g n c. el kt [b, g, c, n] = el k [b, g, n, c]"
    using transpose_last_4[OF k] by blast
  obtain a1 where a1: "matmul q kt = Some a1" "shape a1 = [B, nh, N, M]"
    "\<And>i g n j. i < B \<Longrightarrow> g < nh \<Longrightarrow>
       el a1 [i, g, n, j] = (\<Sum>d<C. el q [i, g, n, d] * el kt [i, g, d, j])"
    using matmul_4[OF q kt(2)] by blast
  define a2 where "a2 = t_map (\<lambda>a. a * sc) a1"
  have a2: "shape a2 = [B, nh, N, M]" "\<And>idx. el a2 idx = el a1 idx * sc"
    by (simp_all add: a2_def t_map_def a1(2))
  obtain a3 where a3: "t_add a2 pb = Some a3" "shape a3 = [B, nh, N, M]"
    "\<And>b h n i. b < B \<Longrightarrow> h < nh \<Longrightarrow> n < N \<Longrightarrow> i < M \<Longrightarrow>
       el a3 [b, h, n, i] = el a2 [b, h, n, i] + el pb [0, h, n, i]"
    using bias_add_value[OF a2(1) pb] by blast
  obtain a4 where a4: "softmax a3 = Some a4" "shape a4 = [B, nh, N, M]"
    "\<And>b g n j. el a4 [b, g, n, j] = exp (el a3 [b, g, n, j]) / (\<Sum>i<M. exp (el a3 [b, g, n, i]))"
    using softmax_4[OF a3(2)] by blast
  obtain x1 where x1: "matmul a4 v = Some x1" "shape x1 = [B, nh, N, Cv]"
    "\<And>i g n j. i < B \<Longrightarrow> g < nh \<Longrightarrow>
       el x1 [i, g, n, j] = (\<Sum>d<M. el a4 [i, g, n, d] * el v [i, g, d, j])"
    using matmul_4[OF a4(2) v] by blast
  obtain x where x: "transpose_dims 1 2 x1 = Some x" "shape x = [B, N, nh, Cv]"
    "\<And>b g n c. el x [b, n, g, c] = el x1 [b, g, n, c]"
    using transpose_12_4[OF x1(2)] by blast
  show ?thesis
  proof (rule that[of x])
    show "attention_core sc (Some pb) q k v = Some x"
      using kt(1) a1(1) a3(1) a4(1) x1(1) x(1) by (simp add: attention_core_def a2_def)
    show "shape x = [B, N, nh, Cv]" by (rule x(2))
    fix b n h c assume i: "b < B" "n < N" "h < nh" "c < Cv"
    have l: "el a3 [b, h, n, j] = (\<Sum>d<C. el q [b, h, n, d] * el k [b, h, j, d]) * sc + el pb [0, h, n, j]"
      if "j < M" for j
      using a3(3)[OF i(1) i(3) i(2) that] a2(2)[of "[b, h, n, j]"] a1(3)[OF i(1) i(3), of n j]
      by (simp add: kt(3))
    have d: "(\<Sum>j<M. exp (el a3 [b, h, n, j]))
        = (\<Sum>j<M. exp ((\<Sum>d<C. el q [b, h, n, d] * el k [b, h, j, d]) * sc + el pb [0, h, n, j]))"
      by (rule sum.cong[OF refl]) (simp add: l)
    have "el x [b, n, h, c] = (\<Sum>j<M. el a4 [b, h, n, j] * el v [b, h, j, c])"
      using x(3)[of b n h c] x1(3)[OF i(1) i(3), of n c] by simp
    also have "\<dots> = (\<Sum>j<M. exp ((\<Sum>d<C. el q [b, h, n, d] * el k [b, h, j, d]) * sc + el pb [0, h, n, j])
                  / (\<Sum>i'<M. exp ((\<Sum>d<C. el q [b, h, n, d] * el k [b, h, i', d]) * sc
                                   + el pb [0, h, n, i']))
                  * el v [b, h, j, c])"
      by (rule sum.cong[OF refl]) (simp add: a4(3) d l)
    finally show "el x [b, n, h, c]
       = (\<Sum>i<M. exp ((\<Sum>d<C. el q [b, h, n, d] * el k [b, h, i, d]) * sc + el pb [0, h, n, i])
                  / (\<Sum>i'<M. exp ((\<Sum>d<C. el q [b, h, n, d] * el k [b, h, i', d]) * sc
                                   + el pb [0, h, n, i']))
                  * el v [b, h, i, c])" .
  qed
qed

lemma merge_heads_value:
  assumes x: "shape x = [B, N, nh, Cv]" and pos: "0 < B" "0 < N" "0 < nh" "0 < Cv"
  obtains r where "view [int B, int N, - 1] x = Some r" "shape r = [B, N, nh * Cv]"
    "\<And>b n j. b < B \<Longrightarrow> n < N \<Longrightarrow> j < nh * Cv \<Longrightarrow>
       el r [b, n, j] = el x [b, n, j div Cv, j mod Cv]"
proof -
  define r where "r = reshape_to [B, N, nh * Cv] x"
  have v: "view (map int [B, N] @ [- 1]) x = Some (reshape_to ([B, N] @ [nh * Cv]) x)"
    by (rule view_last_inferred) (use pos in \<open>simp_all add: x\<close>)
  show ?thesis
  proof (rule that[of r])
    show "view [int B, int N, - 1] x = Some r" using v by (simp add: r_def)
    show "shape r = [B, N, nh * Cv]" by (simp add: r_def reshape_to_def)
    fix b n j assume a: "b < B" "n < N" "j < nh * Cv"
    show "el r [b, n, j] = el x [b, n, j div Cv, j mod Cv]"
      unfolding r_def
    proof (rule reshape_el)
      have "j div Cv < nh" using a(3) pos(4) by (simp add: less_mult_imp_div_less)
      then show "list_all2 (<) [b, n, j div Cv, j mod Cv] (shape x)"
        using a pos by (simp add: x)
      show "ravel [B, N, nh * Cv] [b, n, j] = ravel (shape x) [b, n, j div Cv, j mod Cv]"
        by (simp add: x algebra_simps)
    qed
  qed
qed

lemma window_reverse_single:
  assumes t: "shape t = [B, ws * ws, D]" and pos: "0 < B" "0 < ws" "0 < D"
  obtains r where "window_reverse t (ws, ws) (ws, ws) = Some r" "shape r = [B, ws * ws, D]"
    "\<And>b n d. b < B \<Longrightarrow> n < ws * ws \<Longrightarrow> d < D \<Longrightarrow> el r [b, n, d] = el t [b, n, d]"
proof -
  have one: "real (ws * ws) / real ws / real ws = 1" using pos by simp
  have B: "nat \<lfloor>real (shape t ! 0) / (real (ws * ws) / real ws / real ws)\<rfloor> = B"
    unfolding one by (simp add: t)
  define t1 where "t1 = reshape_to [B, 1, 1, ws, ws, D] t"
  have v1: "view (map int [B, 1, 1, ws, ws] @ [- 1]) t = Some (reshape_to ([B, 1, 1, ws, ws] @ [D]) t)"
    by (rule view_last_inferred) (use pos in \<open>simp_all add: t\<close>)
  have s1: "shape t1 = [B, 1, 1, ws, ws, D]" by (simp add: t1_def reshape_to_def)
  have e1: "el t1 [b, 0, 0, i, j, d] = el t [b, i * ws + j, d]"
    if "b < B" "i < ws" "j < ws" "d < D" for b i j d
    unfolding t1_def
  proof (rule reshape_el)
    show "list_all2 (<) [b, i * ws + j, d] (shape t)"
      using that in_window[of i ws j] by (simp add: t)
    show "ravel [B, 1, 1, ws, ws, D] [b, 0, 0, i, j, d] = ravel (shape t) [b, i * ws + j, d]"
      by (simp add: t algebra_simps)
  qed
  define t2 where "t2 = \<lparr>shape = map (\<lambda>p. shape t1 ! p) [0, 1, 3, 2, 4, 5],
            el = (\<lambda>idx. el t1 (map (\<lambda>d. idx ! position [0, 1, 3, 2, 4, 5] d) [0..<length [0::nat, 1, 3, 2, 4, 5]]))\<rparr>"
  have v2: "permute [0, 1, 3, 2, 4, 5] t1 = Some t2"
    unfolding t2_def by (rule permute_value) (simp_all add: s1)
  have s2: "shape t2 = [B, 1, ws, 1, ws, D]" by (simp add: t2_def s1)
  have e2: "el t2 [b, g, i, g', j, d] = el t1 [b, g, g', i, j, d]" for b g g' i j d
    by (simp add: t2_def position_def upt_rec)
  define t3 where "t3 = reshape_to [B, ws * ws, D] t2"
  have v3: "view (map int [B, ws * ws] @ [- 1]) t2 = Some (reshape_to ([B, ws * ws] @ [D]) t2)"
    by (rule view_last_inferred) (use pos in \<open>simp_all add: s2\<close>)
  have s3: "shape t3 = [B, ws * ws, D]" by (simp add: t3_def reshape_to_def)
  have e3: "el t3 [b, n, d] = el t2 [b, 0, n div ws, 0, n mod ws, d]"
    if "b < B" "n < ws * ws" "d < D" for b n d
    unfolding t3_def
  proof (rule reshape_el)
    show "list_all2 (<) [b, 0, n div ws, 0, n mod ws, d] (shape t2)"
      using that pos div_window[of n ws] by (simp add: s2)
    show "ravel [B, ws * ws, D] [b, n, d] = ravel (shape t2) [b, 0, n div ws, 0, n mod ws, d]"
      using split_index[OF pos(2), of n D] by (simp add: s2 algebra_simps)
  qed
  show ?thesis
  proof (rule that[of t3])
    show "window_reverse t (ws, ws) (ws, ws) = Some t3"
      using v1 v2 v3 pos B by (simp add: window_reverse_def t t1_def t3_def)
    show "shape t3 = [B, ws * ws, D]" by (rule s3)
    fix b n d assume a: "b < B" "n < ws * ws" "d < D"
    have w: "n div ws < ws" "n mod ws < ws" using a(2) pos(2) by (simp_all add: div_window)
    show "el t3 [b, n, d] = el t [b, n, d]"
      using e3[OF a] e2 e1[OF a(1) w a(3)] by simp
  qed
qed

lemma forward_local_single:
  assumes q: "shape q = [B, nh, ws * ws, C]" and k: "shape k = [B, nh, ws * ws, C]"
    and v: "shape v = [B, nh, ws * ws, Cv]"
    and ws: "window_size m = ws"
    and pos: "0 < B" "0 < nh" "0 < ws" "0 < C" "0 < Cv"
    and tab: "shape (relative_position_bias_table m) = [(2 * ws - 1) * (2 * ws - 1), nh]"
    and rpi: "relative_position_index m = get_relative_position_index ws ws"
  obtains x where "forward_local m q k v ws ws = Some x" "shape x = [B, ws * ws, nh * Cv]"
    "\<And>b n j. b < B \<Longrightarrow> n < ws * ws \<Longrightarrow> j < nh * Cv \<Longrightarrow>
       el x [b, n, j] = spec_full_attention m q k v b n j"
proof -
  define N where "N = ws * ws"
  have N: "0 < N" using pos by (simp add: N_def)
  obtain qw where qw: "window_partition B nh 1 1 ws C q = Some qw" "shape qw = [B, nh, ws * ws, C]"
    "\<And>b h n c. b < B \<Longrightarrow> h < nh \<Longrightarrow> n < ws * ws \<Longrightarrow> c < C \<Longrightarrow>
        el qw [b, h, n, c] = el q [b, h, n, c]"
    using window_partition_single[OF q pos(1,2,3,4)] by blast
  obtain kw where kw: "window_partition B nh 1 1 ws C k = Some kw" "shape kw = [B, nh, ws * ws, C]"
    "\<And>b h n c. b < B \<Longrightarrow> h < nh \<Longrightarrow> n < ws * ws \<Longrightarrow> c < C \<Longrightarrow>
        el kw [b, h, n, c] = el k [b, h, n, c]"
    using window_partition_single[OF k pos(1,2,3,4)] by blast
  obtain vw where vw: "window_partition B nh 1 1 ws Cv v = Some vw" "shape vw = [B, nh, ws * ws, Cv]"
    "\<And>b h n c. b < B \<Longrightarrow> h < nh \<Longrightarrow> n < ws * ws \<Longrightarrow> c < Cv \<Longrightarrow>
        el vw [b, h, n, c] = el v [b, h, n, c]"
    using window_partition_single[OF v pos(1,2,3,5)] by blast
  obtain pb where pb: "get_relative_positional_bias m = Some pb"
    "shape pb = [1, nh, ws * ws, ws * ws]"
    "\<And>h n i. h < nh \<Longrightarrow> n < ws * ws \<Longrightarrow> i < ws * ws \<Longrightarrow>
       el pb [0, h, n, i]
       = el (relative_position_bias_table m) [relative_position_index m ! (n * (ws * ws) + i), h]"
    using positional_bias_value[OF ws pos(3,2) tab rpi] by blast
  obtain x1 where x1: "attention_core (scale m) (Some pb) qw kw vw = Some x1"
    "shape x1 = [B, ws * ws, nh, Cv]"
    "\<And>b n h c. b < B \<Longrightarrow> n < ws * ws \<Longrightarrow> h < nh \<Longrightarrow> c < Cv \<Longrightarrow>
       el x1 [b, n, h, c]
       = (\<Sum>i<ws * ws. exp ((\<Sum>d<C. el qw [b, h, n, d] * el kw [b, h, i, d]) * scale m + el pb [0, h, n, i])
                  / (\<Sum>i'<ws * ws. exp ((\<Sum>d<C. el qw [b, h, n, d] * el kw [b, h, i', d]) * scale m
                                   + el pb [0, h, n, i']))
                  * el vw [b, h, i, c])"
    using attention_core_bias_value[OF qw(2) kw(2) vw(2) pb(2), of "scale m"] by blast
  obtain x2 where x2: "view [int B, int (ws * ws), - 1] x1 = Some x2" "shape x2 = [B, ws * ws, nh * Cv]"
    "\<And>b n j. b < B \<Longrightarrow> n < ws * ws \<Longrightarrow> j < nh * Cv \<Longrightarrow>
       el x2 [b, n, j] = el x1 [b, n, j div Cv, j mod Cv]"
    using merge_heads_value[OF x1(2) pos(1) _ pos(2,5)] pos(3) by (metis mult_pos_pos)
  have D: "0 < nh * Cv" using pos by simp
  obtain x where x: "window_reverse x2 (ws, ws) (ws, ws) = Some x" "shape x = [B, ws * ws, nh * Cv]"
    "\<And>b n d. b < B \<Longrightarrow> n < ws * ws \<Longrightarrow> d < nh * Cv \<Longrightarrow> el x [b, n, d] = el x2 [b, n, d]"
    using window_reverse_single[OF x2(2) pos(1,3) D] by blast
  show ?thesis
  proof (rule that[of x])
    show "forward_local m q k v ws ws = Some x"
      using qw(1) kw(1) vw(1) pb(1) x1(1) x2(1) x(1) pos
      by (simp add: forward_local_def q v ws vw(2))
    show "shape x = [B, ws * ws, nh * Cv]" by (rule x(2))
    fix b n j assume a: "b < B" "n < ws * ws" "j < nh * Cv"
    have h: "j div Cv < nh" using a(3) pos(5) by (simp add: less_mult_imp_div_less)
    have c: "j mod Cv < Cv" using pos(5) by simp
    have l: "(\<Sum>d<C. el qw [b, j div Cv, n, d] * el kw [b, j div Cv, i, d]) * scale m
               + el pb [0, j div Cv, n, i]
             = spec_attention_logit m q k b (j div Cv) n i" if "i < ws * ws" for i
    proof -
      have "(\<Sum>d<C. el qw [b, j div Cv, n, d] * el kw [b, j div Cv, i, d])
          = (\<Sum>d<C. el q [b, j div Cv, n, d] * el k [b, j div Cv, i, d])"
        by (rule sum.cong[OF refl]) (simp add: qw(3)[OF a(1) h a(2)] kw(3)[OF a(1) h that])
      then show ?thesis
        by (simp add: spec_attention_logit_def q pb(3)[OF h a(2) that])
    qed
    have d: "(\<Sum>i'<ws * ws. exp ((\<Sum>d<C. el qw [b, j div Cv, n, d] * el kw [b, j div Cv, i', d]) * scale m
                                   + el pb [0, j div Cv, n, i']))
           = (\<Sum>i'<ws * ws. exp (spec_attention_logit m q k b (j div Cv) n i'))"
      by (rule sum.cong[OF refl]) (simp add: l)
    have "el x [b, n, j] = el x1 [b, n, j div Cv, j mod Cv]"
      using x(3)[OF a] x2(3)[OF a] by simp
    also have "\<dots> = (\<Sum>i<ws * ws. exp ((\<Sum>d<C. el qw [b, j div Cv, n, d] * el kw [b, j div Cv, i, d]) * scale m + el pb [0, j div Cv, n, i])
                  / (\<Sum>i'<ws * ws. exp ((\<Sum>d<C. el qw [b, j div Cv, n, d] * el kw [b, j div Cv, i', d]) * scale m
                                   + el pb [0, j div Cv, n, i']))
                  * el vw [b, j div Cv, i, j mod Cv])"
      by (rule x1(3)[OF a(1,2) h c])
    also have "\<dots> = (\<Sum>i<ws * ws. exp (spec_attention_logit m q k b (j div Cv) n i)
                  / (\<Sum>i'<ws * ws. exp (spec_attention_logit m q k b (j div Cv) n i'))
                  * el v [b, j div Cv, i, j mod Cv])"
      unfolding d by (rule sum.cong[OF refl]) (simp add: l vw(3)[OF a(1) h _ c])
    also have "\<dots> = spec_full_attention m q k v b n j"
      by (simp add: spec_full_attention_def q v Let_def)
    finally show "el x [b, n, j] = spec_full_attention m q k v b n j" .
  qed
qed

text \<open>
  Claim C7. Let the padded feature map be one window: \<open>q\<close>, \<open>k\<close> and \<open>v\<close> hold
  \<open>ws * ws\<close> tokens and \<open>forward_local\<close> is called with height and width \<open>ws\<close>, on a
  module whose bias table has a row per relative position and whose index buffer is the one
  \<open>__init__\<close> registers. Then the local pass returns, and every entry of its result is the
  entry of full attention over all tokens, with the positional bias read at the relative
  position index of the pair of tokens.
\<close>

theorem single_window_is_full_attention:
  assumes "shape q = [B, nh, ws * ws, C]" "shape k = [B, nh, ws * ws, C]"
    "shape v = [B, nh, ws * ws, Cv]"
    "window_size m = ws" "0 < B" "0 < nh" "0 < ws" "0 < C" "0 < Cv"
    "shape (relative_position_bias_table m) = [(2 * ws - 1) * (2 * ws - 1), nh]"
    "relative_position_index m = get_relative_position_index ws ws"
  shows "\<exists>x. forward_local m q k v ws ws = Some x \<and> shape x = [B, ws * ws, nh * Cv] \<and>
           (\<forall>b<B. \<forall>n<ws * ws. \<forall>j<nh * Cv. el x [b, n, j] = spec_full_attention m q k v b n j)"
  by (rule forward_local_single[OF assms]) blast

text \<open>
  The hypotheses hold for four tokens in a window of 2 by 2.
\<close>

theorem single_window_is_full_attention_witness:
  "\<exists>x. forward_local example_attention example_tokens example_tokens example_tokens 2 2 = Some x \<and>
       shape x = [1, 4, 1] \<and>
       el x [0, 3, 0]
       = spec_full_attention example_attention example_tokens example_tokens example_tokens 0 3 0"
proof -
  have "\<exists>x. forward_local example_attention example_tokens example_tokens example_tokens 2 2 = Some x \<and>
           shape x = [1, 2 * 2, 1 * 1] \<and>
           (\<forall>b<1. \<forall>n<2 * 2. \<forall>j<1 * 1. el x [b, n, j]
              = spec_full_attention example_attention example_tokens example_tokens example_tokens b n j)"
    by (rule single_window_is_full_attention[where C = 1])
      (simp_all add: example_attention_def example_tokens_def tensor_of_def)
  then show ?thesis by auto
qed

section \<open>The attention step without non-local attention\<close>

text \<open>
  Claim C1, as stated, says that with \<open>NON_LOCAL\<close> false the attention step
  \<open>x = x + Attention(x)\<close> leaves \<open>x\<close> unchanged. The attention module is then
  \<open>nn.Identity()\<close>, which returns \<open>x\<close>, and the step adds it to \<open>x\<close>: on the tensor with
  the single entry 1 the step returns the entry 2.
\<close>

theorem identity_attention_counterexample:
  "data (tensor_of [1] [1]) = [1] \<and>
   map_option data (attention_step (fst (example_blocks ! 0)) (tensor_of [1] [1])) = Some [2]"
  by (simp add: example_blocks_def LocalNonLocalBlock_init_def attention_step_def t_add_def
      bop_def bshape_def data_def tensor_of_def indices.simps bidx_def)

text \<open>
  Claim C1, amended. With \<open>NON_LOCAL\<close> false the attention module of every sub-block is
  \<open>nn.Identity()\<close>: for every input \<open>x\<close> the attention step returns \<open>x + x\<close>, every entry
  doubled, and the sub-block is the feed-forward residual step on that tensor.
\<close>

theorem identity_attention_doubles:
  assumes "blk \<in> set (LocalNonLocalBlock_init False num_blocks sglb ffn)"
  shows "\<exists>y. attention_step (fst blk) x = Some y \<and> shape y = shape x \<and>
           (\<forall>idx. list_all2 (<) idx (shape x) \<longrightarrow> el y idx = 2 * el x idx) \<and>
           sub_block blk x = ffn_step (snd blk) y"
proof -
  have a: "fst blk = Identity" using assms by (auto simp: LocalNonLocalBlock_init_def)
  obtain y where y: "bop (+) x x = Some y" "shape y = shape x"
    "\<And>idx. list_all2 (<) idx (shape x) \<Longrightarrow> el y idx = el x idx + el x idx"
    using bop_same[of x "shape x" x "(+)"] by blast
  have "attention_step (fst blk) x = Some y" by (simp add: a attention_step_def t_add_def y(1))
  moreover from this have "sub_block blk x = ffn_step (snd blk) y" by (simp add: sub_block_def)
  ultimately show ?thesis using y(2,3) by auto
qed

text \<open>
  The block of the example list is such a sub-block.
\<close>

theorem identity_attention_doubles_witness:
  "\<exists>y. attention_step (fst (example_blocks ! 0)) (tensor_of [1] [1]) = Some y \<and> shape y = [1] \<and>
       el y [0] = 2 * el (tensor_of [1] [1]) [0] \<and>
       sub_block (example_blocks ! 0) (tensor_of [1] [1]) = ffn_step (snd (example_blocks ! 0)) y"
proof -
  have "example_blocks ! 0 \<in> set (LocalNonLocalBlock_init False 1 example_layers example_layers)"
    by (simp add: example_blocks_def LocalNonLocalBlock_init_def)
  from identity_attention_doubles[OF this, of "tensor_of [1] [1]"]
  show ?thesis by (auto simp: tensor_of_def)
qed

section \<open>Padding and the local pass\<close>

text \<open>
  The forward pass is the composition of its sections.
\<close>

lemma Attention_forward_with_sections:
  assumes "shape x = [B, N, C]"
  shows "Attention_forward_with local m x H W = do {
     (q_img, k_img, v_img, q_cls, Hp, Wp) \<leftarrow> attention_tokens m x H W;
     x_img \<leftarrow> local q_img k_img v_img Hp Wp;
     x_img \<leftarrow> restore_size B Hp Wp H W x_img;
     (x_cls, bc) \<leftarrow> attention_global m B C Hp Wp H W q_img k_img v_img q_cls;
     attention_output m x_cls x_img bc
   }"
  by (simp add: Attention_forward_with_def attention_tokens_def restore_size_def
      attention_global_def attention_output_def assms Let_def)

lemma attention_core_plain_value:
  assumes q: "shape q = [B, nh, N, C]" and k: "shape k = [B, nh, M, C]"
    and v: "shape v = [B, nh, M, Cv]"
  obtains x where "attention_core sc None q k v = Some x" "shape x = [B, N, nh, Cv]"
    "\<And>b n h c. b < B \<Longrightarrow> n < N \<Longrightarrow> h < nh \<Longrightarrow> c < Cv \<Longrightarrow>
       el x [b, n, h, c]
       = (\<Sum>i<M. exp ((\<Sum>d<C. el q [b, h, n, d] * el k [b, h, i, d]) * sc)
                  / (\<Sum>i'<M. exp ((\<Sum>d<C. el q [b, h, n, d] * el k [b, h, i', d]) * sc))
                  * el v [b, h, i, c])"
proof -
  obtain kt where kt: "transpose_dims (- 2) (- 1) k = Some kt" "shape kt = [B, nh, C, M]"
    "\<And>b g n c. el kt [b, g, c, n] = el k [b, g, n, c]"
    using transpose_last_4[OF k] by blast
  obtain a1 where a1: "matmul q kt = Some a1" "shape a1 = [B, nh, N, M]"
    "\<And>i g n j. i < B \<Longrightarrow> g < nh \<Longrightarrow>
       el a1 [i, g, n, j] = (\<Sum>d<C. el q [i, g, n, d] * el kt [i, g, d, j])"
    using matmul_4[OF q kt(2)] by blast
  define a2 where "a2 = t_map (\<lambda>a. a * sc) a1"
  have a2: "shape a2 = [B, nh, N, M]" "\<And>idx. el a2 idx = el a1 idx * sc"
    by (simp_all add: a2_def t_map_def a1(2))
  obtain a4 where a4: "softmax a2 = Some a4" "shape a4 = [B, nh, N, M]"
    "\<And>b g n j. el a4 [b, g, n, j] = exp (el a2 [b, g, n, j]) / (\<Sum>i<M. exp (el a2 [b, g, n, i]))"
    using softmax_4[OF a2(1)] by blast
  obtain x1 where x1: "matmul a4 v = Some x1" "shape x1 = [B, nh, N, Cv]"
    "\<And>i g n j. i < B \<Longrightarrow> g < nh \<Longrightarrow>
       el x1 [i, g, n, j] = (\<Sum>d<M. el a4 [i, g, n, d] * el v [i, g, d, j])"
    using matmul_4[OF a4(2) v] by blast
  obtain x where x: "transpose_dims 1 2 x1 = Some x" "shape x = [B, N, nh, Cv]"
    "\<And>b g n c. el x [b, n, g, c] = el x1 [b, g, n, c]"
    using transpose_12_4[OF x1(2)] by blast
  show ?thesis
  proof (rule that[of x])
    show "attention_core sc None q k v = Some x"
      using kt(1) a1(1) a4(1) x1(1) x(1) by (simp add: attention_core_def a2_def)
    show "shape x = [B, N, nh, Cv]" by (rule x(2))
    fix b n h c assume i: "b < B" "n < N" "h < nh" "c < Cv"
    have l: "el a2 [b, h, n, j] = (\<Sum>d<C. el q [b, h, n, d] * el k [b, h, j, d]) * sc" for j
      using a2(2)[of "[b, h, n, j]"] a1(3)[OF i(1) i(3), of n j] by (simp add: kt(3))
    have "el x [b, n, h, c] = (\<Sum>j<M. el a4 [b, h, n, j] * el v [b, h, j, c])"
      using x(3)[of b n h c] x1(3)[OF i(1) i(3), of n c] by simp
    then show "el x [b, n, h, c]
       = (\<Sum>i<M. exp ((\<Sum>d<C. el q [b, h, n, d] * el k [b, h, i, d]) * sc)
                  / (\<Sum>i'<M. exp ((\<Sum>d<C. el q [b, h, n, d] * el k [b, h, i', d]) * sc))
                  * el v [b, h, i, c])"
      by (simp add: a4(3) l)
  qed
qed

lemma global_pass_value:
  assumes q: "shape q = [B, nh, N, C]" and k: "shape k = [B, nh, M, C]"
    and v: "shape v = [B, nh, M, Cv]" and pos: "0 < B" "0 < N" "0 < nh" "0 < Cv"
  obtains x where "forward_global_aggregation m q k v = Some x"
    "forward_global_broadcast m q k v = Some x" "shape x = [B, N, nh * Cv]"
    "\<And>b n j. b < B \<Longrightarrow> n < N \<Longrightarrow> j < nh * Cv \<Longrightarrow>
       el x [b, n, j]
       = (\<Sum>i<M. exp ((\<Sum>d<C. el q [b, j div Cv, n, d] * el k [b, j div Cv, i, d]) * scale m)
                  / (\<Sum>i'<M. exp ((\<Sum>d<C. el q [b, j div Cv, n, d] * el k [b, j div Cv, i', d]) * scale m))
                  * el v [b, j div Cv, i, j mod Cv])"
proof -
  obtain x1 where x1: "attention_core (scale m) None q k v = Some x1" "shape x1 = [B, N, nh, Cv]"
    "\<And>b n h c. b < B \<Longrightarrow> n < N \<Longrightarrow> h < nh \<Longrightarrow> c < Cv \<Longrightarrow>
       el x1 [b, n, h, c]
       = (\<Sum>i<M. exp ((\<Sum>d<C. el q [b, h, n, d] * el k [b, h, i, d]) * scale m)
                  / (\<Sum>i'<M. exp ((\<Sum>d<C. el q [b, h, n, d] * el k [b, h, i', d]) * scale m))
                  * el v [b, h, i, c])"
    using attention_core_plain_value[OF q k v, of "scale m"] by blast
  obtain x where x: "view [int B, int N, - 1] x1 = Some x" "shape x = [B, N, nh * Cv]"
    "\<And>b n j. b < B \<Longrightarrow> n < N \<Longrightarrow> j < nh * Cv \<Longrightarrow>
       el x [b, n, j] = el x1 [b, n, j div Cv, j mod Cv]"
    using merge_heads_value[OF x1(2) pos] by blast
  show ?thesis
  proof (rule that[of x])
    show "forward_global_aggregation m q k v = Some x"
      by (simp add: forward_global_aggregation_def q x1(1) x(1))
    show "forward_global_broadcast m q k v = Some x"
      by (simp add: forward_global_broadcast_def q x1(1) x(1))
    show "shape x = [B, N, nh * Cv]" by (rule x(2))
    fix b n j assume a: "b < B" "n < N" "j < nh * Cv"
    have h: "j div Cv < nh" using a(3) pos(4) by (simp add: less_mult_imp_div_less)
    have c: "j mod Cv < Cv" using pos(4) by simp
    show "el x [b, n, j]
       = (\<Sum>i<M. exp ((\<Sum>d<C. el q [b, j div Cv, n, d] * el k [b, j div Cv, i, d]) * scale m)
                  / (\<Sum>i'<M. exp ((\<Sum>d<C. el q [b, j div Cv, n, d] * el k [b, j div Cv, i', d]) * scale m))
                  * el v [b, j div Cv, i, j mod Cv])"
      using x(3)[OF a] x1(3)[OF a(1,2) h c] by simp
  qed
qed

lemma sum_upto_4: "(\<Sum>i<4. f i) = f 0 + f 1 + f 2 + f (3::nat)"
  by (simp add: eval_nat_numeral)

lemma example_tokens_value:
  obtains q k v qc where
    "attention_tokens example_attention example_x 1 1 = Some (q, k, v, qc, 2, 2)"
    "shape q = [1, 1, 4, 1]" "shape k = [1, 1, 4, 1]" "shape v = [1, 1, 4, 1]"
    "shape qc = [1, 1, 1, 1]" "el q [0, 0, 0, 0] = 0"
    "el v [0, 0, 0, 0] = 4" "el v [0, 0, 1, 0] = 0" "el v [0, 0, 2, 0] = 0" "el v [0, 0, 3, 0] = 0"
proof -
  have sx: "shape example_x = [1, 2, 1]" by (simp add: example_x_def tensor_of_def)
  obtain a1 where a1: "narrow 1 1 2 example_x = Some a1" "shape a1 = [1, 1, 1]"
    "el a1 [0, 0, 0] = 4"
    by (simp add: narrow_def example_x_def tensor_of_def slice_len_def slice_start_def slice_norm_def)
  obtain g where g: "narrow 1 0 1 example_x = Some g" "shape g = [1, 1, 1]"
    by (simp add: narrow_def example_x_def tensor_of_def slice_len_def slice_start_def slice_norm_def)
  obtain a2 where a2: "view [1, 1, 1, 1] a1 = Some a2" "shape a2 = [1, 1, 1, 1]"
    "el a2 [0, 0, 0, 0] = el a1 [0, 0, 0]"
    using a1(2) by (simp add: view_def reshape_to_def)
  obtain a3 where a3: "F_pad [(0, 0), (0, 1), (0, 1)] a2 = Some a3" "shape a3 = [1, 2, 2, 1]"
    "el a3 [0, 0, 0, 0] = el a2 [0, 0, 0, 0]" "el a3 [0, 0, 1, 0] = 0"
    "el a3 [0, 1, 0, 0] = 0" "el a3 [0, 1, 1, 0] = 0"
    using a2(2) by (simp add: F_pad_def upt_rec eval_nat_numeral)
  obtain a4 where a4: "view [1, - 1, 1] a3 = Some a4" "shape a4 = [1, 4, 1]"
    "el a4 [0, 0, 0] = el a3 [0, 0, 0, 0]" "el a4 [0, 1, 0] = el a3 [0, 0, 1, 0]"
    "el a4 [0, 2, 0] = el a3 [0, 1, 0, 0]" "el a4 [0, 3, 0] = el a3 [0, 1, 1, 0]"
    using a3(2) by (simp add: view_def reshape_to_def)
  obtain c where c: "cat 1 g a4 = Some c" "shape c = [1, 5, 1]"
    "el c [0, 1, 0] = el a4 [0, 0, 0]" "el c [0, 2, 0] = el a4 [0, 1, 0]"
    "el c [0, 3, 0] = el a4 [0, 2, 0]" "el c [0, 4, 0] = el a4 [0, 3, 0]"
    using g(2) a4(2) by (simp add: cat_def)
  obtain o1 where o1: "apply_linear (qkv example_attention) c = Some o1" "shape o1 = [1, 5, 3]"
    "el o1 [0, 1, 0] = 0"
    "el o1 [0, 1, 2] = el c [0, 1, 0]" "el o1 [0, 2, 2] = el c [0, 2, 0]"
    "el o1 [0, 3, 2] = el c [0, 3, 0]" "el o1 [0, 4, 2] = el c [0, 4, 0]"
    using c(2) by (simp add: apply_linear_def example_attention_def tensor_of_def)
  obtain t1 where t1: "view [1, - 1, 3, 1, 1] o1 = Some t1" "shape t1 = [1, 5, 3, 1, 1]"
    "el t1 [0, 1, 0, 0, 0] = el o1 [0, 1, 0]"
    "el t1 [0, 1, 2, 0, 0] = el o1 [0, 1, 2]" "el t1 [0, 2, 2, 0, 0] = el o1 [0, 2, 2]"
    "el t1 [0, 3, 2, 0, 0] = el o1 [0, 3, 2]" "el t1 [0, 4, 2, 0, 0] = el o1 [0, 4, 2]"
    using o1(2) by (simp add: view_def reshape_to_def)
  obtain t2 where t2: "permute [2, 0, 3, 1, 4] t1 = Some t2" "shape t2 = [3, 1, 1, 5, 1]"
    "\<And>p n. el t2 [p, 0, 0, n, 0] = el t1 [0, n, p, 0, 0]"
    using t1(2) by (simp add: permute_def position_def upt_rec)
  obtain q where q: "select 0 0 t2 = Some q" "shape q = [1, 1, 5, 1]"
    "\<And>n. el q [0, 0, n, 0] = el t2 [0, 0, 0, n, 0]"
    using t2(2) by (simp add: select_def)
  obtain k where k: "select 0 1 t2 = Some k" "shape k = [1, 1, 5, 1]"
    using t2(2) by (simp add: select_def)
  obtain v where v: "select 0 2 t2 = Some v" "shape v = [1, 1, 5, 1]"
    "\<And>n. el v [0, 0, n, 0] = el t2 [2, 0, 0, n, 0]"
    using t2(2) by (simp add: select_def)
  have sp: "split_heads 1 3 1 1 o1 = Some [q, k, v]"
    using t1(1) t2(1) q(1) k(1) v(1) by (simp add: split_heads_def upt_rec eval_nat_numeral)
  obtain qi where qi: "narrow 2 1 5 q = Some qi" "shape qi = [1, 1, 4, 1]"
    "el qi [0, 0, 0, 0] = el q [0, 0, 1, 0]"
    using q(2) by (simp add: narrow_def slice_len_def slice_start_def slice_norm_def)
  obtain ki where ki: "narrow 2 1 5 k = Some ki" "shape ki = [1, 1, 4, 1]"
    using k(2) by (simp add: narrow_def slice_len_def slice_start_def slice_norm_def)
  obtain vi where vi: "narrow 2 1 5 v = Some vi" "shape vi = [1, 1, 4, 1]"
    "el vi [0, 0, 0, 0] = el v [0, 0, 1, 0]" "el vi [0, 0, 1, 0] = el v [0, 0, 2, 0]"
    "el vi [0, 0, 2, 0] = el v [0, 0, 3, 0]" "el vi [0, 0, 3, 0] = el v [0, 0, 4, 0]"
    using v(2) by (simp add: narrow_def slice_len_def slice_start_def slice_norm_def eval_nat_numeral)
  obtain qc where qc: "narrow 2 0 1 q = Some qc" "shape qc = [1, 1, 1, 1]"
    using q(2) by (simp add: narrow_def slice_len_def slice_start_def slice_norm_def)
  show ?thesis
  proof (rule that[of qi ki vi qc])
    show "attention_tokens example_attention example_x 1 1 = Some (qi, ki, vi, qc, 2, 2)"
      using a1(1) g(1) a2(1) a3(1) a4(1) c(1) o1(1) sp qi(1) ki(1) vi(1) qc(1)
      by (simp add: attention_tokens_def sx example_attention_def Let_def a3(2) q(2) k(2) v(2))
    show "el qi [0, 0, 0, 0] = 0"
      using qi(3) q(3) t2(3) t1(3) o1(3) by simp
    show "el vi [0, 0, 0, 0] = 4"
      using vi(3) v(3) t2(3) t1(4) o1(4) c(3) a4(3) a3(3) a2(3) a1(3) by simp
    show "el vi [0, 0, 1, 0] = 0"
      using vi(4) v(3) t2(3) t1(5) o1(5) c(4) a4(4) a3(4) by simp
    show "el vi [0, 0, 2, 0] = 0"
      using vi(5) v(3) t2(3) t1(6) o1(6) c(5) a4(5) a3(5) by simp
    show "el vi [0, 0, 3, 0] = 0"
      using vi(6) v(3) t2(3) t1(7) o1(7) c(6) a4(6) a3(6) by simp
  qed (simp_all add: qi(2) ki(2) vi(2) qc(2))
qed

lemma example_local_value:
  assumes "shape q = [1, 1, 4, 1]" "shape k = [1, 1, 4, 1]" "shape v = [1, 1, 4, 1]"
    "el q [0, 0, 0, 0] = 0"
    "el v [0, 0, 0, 0] = 4" "el v [0, 0, 1, 0] = 0" "el v [0, 0, 2, 0] = 0" "el v [0, 0, 3, 0] = 0"
  shows "\<exists>L. forward_local example_attention q k v 2 2 = Some L \<and> shape L = [1, 4, 1] \<and>
           el L [0, 0, 0] = 1"
proof -
  have tab: "shape (relative_position_bias_table example_attention) = [(2 * 2 - 1) * (2 * 2 - 1), 1]"
    by (simp add: example_attention_def)
  have s: "shape q = [1, 1, 2 * 2, 1]" "shape k = [1, 1, 2 * 2, 1]" "shape v = [1, 1, 2 * 2, 1]"
    by (simp_all add: assms(1-3))
  have w: "window_size example_attention = 2"
    "relative_position_index example_attention = get_relative_position_index 2 2"
    by (simp_all add: example_attention_def)
  have p: "0 < (1::nat)" "0 < (2::nat)" by simp_all
  obtain L where L0: "forward_local example_attention q k v 2 2 = Some L"
    "shape L = [1, 2 * 2, 1 * 1]"
    "\<And>b n j. b < 1 \<Longrightarrow> n < 2 * 2 \<Longrightarrow> j < 1 * 1 \<Longrightarrow>
       el L [b, n, j] = spec_full_attention example_attention q k v b n j"
    using forward_local_single[OF s w(1) p(1) p(1) p(2) p(1) p(1) tab w(2)] by blast
  have L: "forward_local example_attention q k v 2 2 = Some L" "shape L = [1, 4, 1]"
    "el L [0, 0, 0] = spec_full_attention example_attention q k v 0 0 0"
    using L0(1) L0(2) L0(3)[of 0 0 0] by simp_all
  have "spec_full_attention example_attention q k v 0 0 0 = 1"
    using assms
    by (simp add: spec_full_attention_def spec_attention_logit_def example_attention_def
        sum_upto_4 Let_def)
  then show ?thesis using L by simp
qed

lemma example_spec_local_value:
  assumes "shape q = [1, 1, 4, 1]" "shape k = [1, 1, 4, 1]" "shape v = [1, 1, 4, 1]"
    "el v [0, 0, 0, 0] = 4"
  shows "\<exists>L. spec_forward_local example_attention 1 1 q k v 2 2 = Some L \<and> shape L = [1, 4, 1] \<and>
           el L [0, 0, 0] = 4"
proof -
  have u: "[0..<4] = [0, 1, 2, 3::nat]" by (simp add: upt_rec)
  have keys: "real_keys 2 1 1 2 2 0 = [0]"
    by (simp add: real_keys_def u)
  show ?thesis
    using assms keys
    by (simp add: spec_forward_local_def example_attention_def Let_def)
qed

lemma example_restore_value:
  assumes "shape L = [1, 4, 1]"
  obtains r where "restore_size 1 2 2 1 1 L = Some r" "shape r = [1, 1, 1]"
    "el r [0, 0, 0] = el L [0, 0, 0]"
proof -
  obtain r1 where r1: "view [1, 2, 2, - 1] L = Some r1" "shape r1 = [1, 2, 2, 1]"
    "el r1 [0, 0, 0, 0] = el L [0, 0, 0]"
    using assms by (simp add: view_def reshape_to_def)
  obtain r2 where r2: "narrow 1 0 1 r1 = Some r2" "shape r2 = [1, 1, 2, 1]"
    "el r2 [0, 0, 0, 0] = el r1 [0, 0, 0, 0]"
    using r1(2) by (simp add: narrow_def slice_len_def slice_start_def slice_norm_def)
  obtain r3 where r3: "narrow 2 0 1 r2 = Some r3" "shape r3 = [1, 1, 1, 1]"
    "el r3 [0, 0, 0, 0] = el r2 [0, 0, 0, 0]"
    using r2(2) by (simp add: narrow_def slice_len_def slice_start_def slice_norm_def)
  obtain r where r: "view [1, 1, - 1] r3 = Some r" "shape r = [1, 1, 1]"
    "el r [0, 0, 0] = el r3 [0, 0, 0, 0]"
    using r3(2) by (simp add: view_def reshape_to_def)
  show ?thesis
  proof (rule that[of r])
    show "restore_size 1 2 2 1 1 L = Some r"
      using r1(1) r2(1) r3(1) r(1) by (simp add: restore_size_def)
    show "el r [0, 0, 0] = el L [0, 0, 0]" using r(3) r3(3) r2(3) r1(3) by simp
  qed (rule r(2))
qed

lemma example_crop_value:
  assumes "shape t = [1, 1, 4, 1]"
  obtains r where "crop_tokens 1 1 2 2 1 1 t = Some r" "shape r = [1, 1, 1, 1]"
    "el r [0, 0, 0, 0] = el t [0, 0, 0, 0]"
proof -
  obtain r1 where r1: "view [1, 1, 2, 2, - 1] t = Some r1" "shape r1 = [1, 1, 2, 2, 1]"
    "el r1 [0, 0, 0, 0, 0] = el t [0, 0, 0, 0]"
    using assms by (simp add: view_def reshape_to_def)
  obtain r2 where r2: "narrow 2 0 1 r1 = Some r2" "shape r2 = [1, 1, 1, 2, 1]"
    "el r2 [0, 0, 0, 0, 0] = el r1 [0, 0, 0, 0, 0]"
    using r1(2) by (simp add: narrow_def slice_len_def slice_start_def slice_norm_def)
  obtain r3 where r3: "narrow 3 0 1 r2 = Some r3" "shape r3 = [1, 1, 1, 1, 1]"
    "el r3 [0, 0, 0, 0, 0] = el r2 [0, 0, 0, 0, 0]"
    using r2(2) by (simp add: narrow_def slice_len_def slice_start_def slice_norm_def)
  obtain r where r: "view [1, 1, 1, - 1] r3 = Some r" "shape r = [1, 1, 1, 1]"
    "el r [0, 0, 0, 0] = el r3 [0, 0, 0, 0, 0]"
    using r3(2) by (simp add: view_def reshape_to_def)
  show ?thesis
  proof (rule that[of r])
    show "crop_tokens 1 1 2 2 1 1 t = Some r"
      using r1(1) r2(1) r3(1) r(1) by (simp add: crop_tokens_def)
    show "el r [0, 0, 0, 0] = el t [0, 0, 0, 0]" using r(3) r3(3) r2(3) r1(3) by simp
  qed (rule r(2))
qed

lemma example_global_value:
  assumes q: "shape q = [1, 1, 4, 1]" and k: "shape k = [1, 1, 4, 1]"
    and v: "shape v = [1, 1, 4, 1]" and qc: "shape qc = [1, 1, 1, 1]"
    and v0: "el v [0, 0, 0, 0] = 4"
  obtains xc bc where "attention_global example_attention 1 1 2 2 1 1 q k v qc = Some (xc, bc)"
    "shape xc = [1, 1, 1]" "shape bc = [1, 1, 1]" "el xc [0, 0, 0] = 4" "el bc [0, 0, 0] = 0"
proof -
  have p: "0 < (1::nat)" by simp
  obtain q' where q': "crop_tokens 1 1 2 2 1 1 q = Some q'" "shape q' = [1, 1, 1, 1]"
    "el q' [0, 0, 0, 0] = el q [0, 0, 0, 0]" by (rule example_crop_value[OF q])
  obtain k' where k': "crop_tokens 1 1 2 2 1 1 k = Some k'" "shape k' = [1, 1, 1, 1]"
    "el k' [0, 0, 0, 0] = el k [0, 0, 0, 0]" by (rule example_crop_value[OF k])
  obtain v' where v': "crop_tokens 1 1 2 2 1 1 v = Some v'" "shape v' = [1, 1, 1, 1]"
    "el v' [0, 0, 0, 0] = el v [0, 0, 0, 0]" by (rule example_crop_value[OF v])
  obtain xc where xc: "forward_global_aggregation example_attention qc k' v' = Some xc"
    "forward_global_broadcast example_attention qc k' v' = Some xc"
    "shape xc = [1, 1, 1 * 1]"
    "\<And>b n j. b < 1 \<Longrightarrow> n < 1 \<Longrightarrow> j < 1 * 1 \<Longrightarrow>
       el xc [b, n, j]
       = (\<Sum>i<1. exp ((\<Sum>d<1. el qc [b, j div 1, n, d] * el k' [b, j div 1, i, d]) * scale example_attention)
                  / (\<Sum>i'<1. exp ((\<Sum>d<1. el qc [b, j div 1, n, d] * el k' [b, j div 1, i', d]) * scale example_attention))
                  * el v' [b, j div 1, i, j mod 1])"
    using global_pass_value[OF qc k'(2) v'(2) p p p p, of example_attention] by blast
  have xc0: "el xc [0, 0, 0] = 4" using xc(4)[of 0 0 0] v'(3) v0 by simp
  have sxc: "shape xc = [1, 1, 1]" using xc(3) by simp
  obtain o1 where o1: "apply_linear (kv_global example_attention) xc = Some o1"
    "shape o1 = [1, 1, 2]" "el o1 [0, 0, 1] = 0"
    using sxc by (simp add: apply_linear_def example_attention_def tensor_of_def)
  obtain t1 where t1: "view [1, - 1, 2, 1, 1] o1 = Some t1" "shape t1 = [1, 1, 2, 1, 1]"
    "el t1 [0, 0, 1, 0, 0] = el o1 [0, 0, 1]"
    using o1(2) by (simp add: view_def reshape_to_def)
  obtain t2 where t2: "permute [2, 0, 3, 1, 4] t1 = Some t2" "shape t2 = [2, 1, 1, 1, 1]"
    "\<And>p n. el t2 [p, 0, 0, n, 0] = el t1 [0, n, p, 0, 0]"
    using t1(2) by (simp add: permute_def position_def upt_rec)
  obtain kc where kc: "select 0 0 t2 = Some kc" "shape kc = [1, 1, 1, 1]"
    using t2(2) by (simp add: select_def)
  obtain vc where vc: "select 0 1 t2 = Some vc" "shape vc = [1, 1, 1, 1]"
    "\<And>n. el vc [0, 0, n, 0] = el t2 [1, 0, 0, n, 0]"
    using t2(2) by (simp add: select_def)
  have sp: "split_heads 1 2 1 1 o1 = Some [kc, vc]"
    using t1(1) t2(1) kc(1) vc(1) by (simp add: split_heads_def upt_rec eval_nat_numeral)
  obtain bc where bc: "forward_global_aggregation example_attention q' kc vc = Some bc"
    "forward_global_broadcast example_attention q' kc vc = Some bc"
    "shape bc = [1, 1, 1 * 1]"
    "\<And>b n j. b < 1 \<Longrightarrow> n < 1 \<Longrightarrow> j < 1 * 1 \<Longrightarrow>
       el bc [b, n, j]
       = (\<Sum>i<1. exp ((\<Sum>d<1. el q' [b, j div 1, n, d] * el kc [b, j div 1, i, d]) * scale example_attention)
                  / (\<Sum>i'<1. exp ((\<Sum>d<1. el q' [b, j div 1, n, d] * el kc [b, j div 1, i', d]) * scale example_attention))
                  * el vc [b, j div 1, i, j mod 1])"
    using global_pass_value[OF q'(2) kc(2) vc(2) p p p p, of example_attention] by blast
  have bc0: "el bc [0, 0, 0] = 0" using bc(4)[of 0 0 0] vc(3)[of 0] t2(3)[of 1 0] t1(3) o1(3) by simp
  show ?thesis
  proof (rule that[of xc bc])
    show "attention_global example_attention 1 1 2 2 1 1 q k v qc = Some (xc, bc)"
      using q'(1) k'(1) v'(1) xc(1) o1(1) sp bc(2)
      by (simp add: attention_global_def example_attention_def Let_def)
    show "shape bc = [1, 1, 1]" using bc(3) by simp
  qed (rule sxc xc0 bc0)+
qed

lemma example_output_value:
  assumes "shape xc = [1, 1, 1]" "shape xi = [1, 1, 1]" "shape bc = [1, 1, 1]"
  obtains r where "attention_output example_attention xc xi bc = Some r" "shape r = [1, 2, 1]"
    "el r [0, 0, 0] = el xc [0, 0, 0]" "el r [0, 1, 0] = el xi [0, 0, 0] + el bc [0, 0, 0]"
proof -
  obtain s where s: "t_add xi bc = Some s" "shape s = [1, 1, 1]"
    "el s [0, 0, 0] = el xi [0, 0, 0] + el bc [0, 0, 0]"
    using assms by (simp add: t_add_def bop_def bshape_def bidx_def)
  obtain c where c: "cat 1 xc s = Some c" "shape c = [1, 2, 1]"
    "el c [0, 0, 0] = el xc [0, 0, 0]" "el c [0, 1, 0] = el s [0, 0, 0]"
    using assms(1) s(2) by (simp add: cat_def)
  obtain r where r: "apply_linear (proj example_attention) c = Some r" "shape r = [1, 2, 1]"
    "el r [0, 0, 0] = el c [0, 0, 0]" "el r [0, 1, 0] = el c [0, 1, 0]"
    using c(2) by (simp add: apply_linear_def example_attention_def tensor_of_def)
  show ?thesis
  proof (rule that[of r])
    show "attention_output example_attention xc xi bc = Some r"
      using s(1) c(1) r(1) by (simp add: attention_output_def)
    show "el r [0, 0, 0] = el xc [0, 0, 0]" using r(3) c(3) by simp
    show "el r [0, 1, 0] = el xi [0, 0, 0] + el bc [0, 0, 0]" using r(4) c(4) s(3) by simp
  qed (rule r(2))
qed

lemma example_forward_value:
  assumes "\<And>q k v. shape q = [1, 1, 4, 1] \<Longrightarrow> shape k = [1, 1, 4, 1] \<Longrightarrow>
      shape v = [1, 1, 4, 1] \<Longrightarrow> el q [0, 0, 0, 0] = 0 \<Longrightarrow>
      el v [0, 0, 0, 0] = 4 \<Longrightarrow> el v [0, 0, 1, 0] = 0 \<Longrightarrow> el v [0, 0, 2, 0] = 0 \<Longrightarrow>
      el v [0, 0, 3, 0] = 0 \<Longrightarrow>
      \<exists>L. local q k v 2 2 = Some L \<and> shape L = [1, 4, 1] \<and> el L [0, 0, 0] = c"
  shows "map_option data (Attention_forward_with local example_attention example_x 1 1)
         = Some [4, c]"
proof -
  obtain q k v qc where t:
    "attention_tokens example_attention example_x 1 1 = Some (q, k, v, qc, 2, 2)"
    "shape q = [1, 1, 4, 1]" "shape k = [1, 1, 4, 1]" "shape v = [1, 1, 4, 1]"
    "shape qc = [1, 1, 1, 1]" "el q [0, 0, 0, 0] = 0"
    "el v [0, 0, 0, 0] = 4" "el v [0, 0, 1, 0] = 0" "el v [0, 0, 2, 0] = 0" "el v [0, 0, 3, 0] = 0"
    by (rule example_tokens_value)
  obtain L where L: "local q k v 2 2 = Some L" "shape L = [1, 4, 1]" "el L [0, 0, 0] = c"
    using assms[OF t(2,3,4,6,7,8,9,10)] by blast
  obtain xi where xi: "restore_size 1 2 2 1 1 L = Some xi" "shape xi = [1, 1, 1]"
    "el xi [0, 0, 0] = el L [0, 0, 0]" by (rule example_restore_value[OF L(2)])
  obtain xc bc where g: "attention_global example_attention 1 1 2 2 1 1 q k v qc = Some (xc, bc)"
    "shape xc = [1, 1, 1]" "shape bc = [1, 1, 1]" "el xc [0, 0, 0] = 4" "el bc [0, 0, 0] = 0"
    by (rule example_global_value[OF t(2,3,4,5,7)])
  obtain r where r: "attention_output example_attention xc xi bc = Some r" "shape r = [1, 2, 1]"
    "el r [0, 0, 0] = el xc [0, 0, 0]" "el r [0, 1, 0] = el xi [0, 0, 0] + el bc [0, 0, 0]"
    by (rule example_output_value[OF g(2) xi(2) g(3)])
  have sx: "shape example_x = [1, 2, 1]" by (simp add: example_x_def tensor_of_def)
  have "Attention_forward_with local example_attention example_x 1 1 = Some r"
    using t(1) L(1) xi(1) g(1) r(1) by (simp add: Attention_forward_with_sections[OF sx])
  moreover have "data r = [4, c]"
    using r(2,3,4) xi(3) L(3) g(4,5) by (simp add: data_def indices.simps upt_rec)
  ultimately show ?thesis by simp
qed

text \<open>
  Claim C5, as stated, says that the output at the original positions is the one obtained
  when the padded tokens take no part in the attention computation. With one head, one
  channel, windows of 2 by 2 and an image of the single pixel 4, the window holds the pixel
  and three padded zero tokens. All logits are 0, so \<open>forward_local\<close> gives each of the four
  keys the weight 1/4 and returns 4/4 = 1 for the pixel, while the softmax over the pixel
  alone returns 4. The global token of the output is 4 in both cases.
\<close>

theorem padded_keys_counterexample:
  "map_option data (Attention_forward example_attention example_x 1 1) = Some [4, 1] \<and>
   map_option data (spec_Attention_forward example_attention example_x 1 1) = Some [4, 4]"
proof
  show "map_option data (Attention_forward example_attention example_x 1 1) = Some [4, 1]"
    unfolding Attention_forward_def by (rule example_forward_value) (rule example_local_value)
  show "map_option data (spec_Attention_forward example_attention example_x 1 1) = Some [4, 4]"
    unfolding spec_Attention_forward_def
    by (rule example_forward_value) (rule example_spec_local_value)
qed

lemma tensor_equal_iff:
  "tensor_equal a b \<longleftrightarrow>
     shape a = shape b \<and> (\<forall>idx. list_all2 (<) idx (shape a) \<longrightarrow> el a idx = el b idx)"
  by (auto simp: tensor_equal_def data_def indices_valid)

lemma unravel_valid: "k < prod_list s \<Longrightarrow> list_all2 (<) (unravel s k) s"
proof (induction s arbitrary: k)
  case Nil
  then show ?case by simp
next
  case (Cons n s)
  have p: "0 < prod_list s" using Cons.prems by (cases "prod_list s") simp_all
  have "k div prod_list s < n" using Cons.prems p
    by (simp add: less_mult_imp_div_less mult.commute)
  moreover have "k mod prod_list s < prod_list s" using p by simp
  ultimately show ?case using Cons.IH by simp
qed

lemma no_negative_dims:
  "filter (\<lambda>d. d < 0) dims = [] \<Longrightarrow>
     filter (\<lambda>d. 0 \<le> d) dims = dims \<and> map (\<lambda>d. if d < 0 then c else nat d) dims = map nat dims"
  for dims :: "int list"
  by (induction dims) (auto split: if_splits)

lemma one_negative_dim:
  "filter (\<lambda>d. d < 0) dims = [x] \<Longrightarrow>
     prod_list (map (\<lambda>d. if d < 0 then c else nat d) dims)
     = c * prod_list (map nat (filter (\<lambda>d. 0 \<le> d) dims))"
  for dims :: "int list"
proof (induction dims)
  case Nil
  then show ?case by simp
next
  case (Cons d dims)
  show ?case
  proof (cases "d < 0")
    case True
    then have "filter (\<lambda>d. d < 0) dims = []" using Cons.prems by simp
    from no_negative_dims[OF this, of c]
    have t: "filter (\<lambda>d. 0 \<le> d) dims = dims"
      "map (\<lambda>d. if d < 0 then c else nat d) dims = map nat dims" by blast+
    have "prod_list (map (\<lambda>d. if d < 0 then c else nat d) (d # dims))
        = c * prod_list (map (\<lambda>d. if d < 0 then c else nat d) dims)" using True by simp
    also have "\<dots> = c * prod_list (map nat dims)" by (simp only: t(2))
    also have "\<dots> = c * prod_list (map nat (filter (\<lambda>d. 0 \<le> d) dims))" by (simp only: t(1))
    also have "filter (\<lambda>d. 0 \<le> d) dims = filter (\<lambda>d. 0 \<le> d) (d # dims)" using True by simp
    finally show ?thesis .
  next
    case False
    then have "filter (\<lambda>d. d < 0) dims = [x]" using Cons.prems by simp
    from Cons.IH[OF this] show ?thesis using False by simp
  qed
qed

lemma view_result:
  assumes "view dims t = Some r"
  obtains s where "r = reshape_to s t" "prod_list s = prod_list (shape t)"
proof (cases "filter (\<lambda>d. d < 0) dims = []")
  case True
  from no_negative_dims[OF True, of 0] have f: "filter (\<lambda>d. 0 \<le> d) dims = dims" by simp
  show ?thesis
  proof (rule that[of "map nat dims"])
    show "r = reshape_to (map nat dims) t"
      using assms True by (simp add: view_def f split: if_splits)
    show "prod_list (map nat dims) = prod_list (shape t)"
      using assms True by (simp add: view_def f split: if_splits)
  qed
next
  case False
  define n where "n = prod_list (shape t)"
  define known where "known = prod_list (map nat (filter (\<lambda>d. 0 \<le> d) dims))"
  from assms False have one: "filter (\<lambda>d. d < 0) dims = [- 1]"
    by (simp add: view_def Let_def split: if_splits)
  from assms False one have ok: "known \<noteq> 0" "n mod known = 0"
    and r: "r = reshape_to (map (\<lambda>d. if d < 0 then n div known else nat d) dims) t"
    unfolding n_def known_def by (auto simp: view_def Let_def split: if_splits)
  show ?thesis
  proof (rule that[OF r])
    have "prod_list (map (\<lambda>d. if d < 0 then n div known else nat d) dims) = n div known * known"
      using one_negative_dim[OF one, of "n div known"] by (simp add: known_def)
    also have "\<dots> = n" using ok(2) div_mult_mod_eq[of n known] by simp
    finally show "prod_list (map (\<lambda>d. if d < 0 then n div known else nat d) dims) = prod_list (shape t)"
      by (simp add: n_def)
  qed
qed

lemma view_shape_only:
  assumes "shape a = shape b"
  shows "map_option shape (view dims a) = map_option shape (view dims b)"
  using assms by (simp add: view_def reshape_to_def Let_def)

lemma view_cong:
  assumes "tensor_equal a b"
  shows "rel_option tensor_equal (view dims a) (view dims b)"
proof (cases "view dims a")
  case None
  then have "view dims b = None"
    using view_shape_only[of a b dims] assms by (simp add: tensor_equal_def)
  then show ?thesis using None by simp
next
  case (Some ra)
  from assms have sh: "shape a = shape b" by (simp add: tensor_equal_def)
  from Some view_shape_only[OF sh, of dims] obtain rb where rb: "view dims b = Some rb"
    "shape ra = shape rb" by (cases "view dims b") auto
  obtain s where s: "ra = reshape_to s a" "prod_list s = prod_list (shape a)"
    by (rule view_result[OF Some])
  obtain s' where s': "rb = reshape_to s' b" "prod_list s' = prod_list (shape b)"
    by (rule view_result[OF rb(1)])
  have ss: "s' = s" using rb(2) s(1) s'(1) by (simp add: reshape_to_def)
  have "tensor_equal ra rb"
    unfolding tensor_equal_iff
  proof (intro conjI allI impI)
    show "shape ra = shape rb" by (rule rb(2))
    fix idx assume "list_all2 (<) idx (shape ra)"
    then have "list_all2 (<) idx s" by (simp add: s(1) reshape_to_def)
    then have "ravel s idx < prod_list (shape a)" using ravel_lt[of idx s] s(2) by simp
    then have "list_all2 (<) (unravel (shape a) (ravel s idx)) (shape a)" by (rule unravel_valid)
    then have "el a (unravel (shape a) (ravel s idx)) = el b (unravel (shape a) (ravel s idx))"
      using assms by (simp add: tensor_equal_iff)
    then show "el ra idx = el rb idx" by (simp add: s(1) s'(1) ss reshape_to_def sh)
  qed
  then show ?thesis using Some rb(1) by simp
qed

lemma in_grid: "y < P \<Longrightarrow> x < Q \<Longrightarrow> y * Q + x < P * (Q::nat)"
proof -
  assume a: "y < P" "x < Q"
  have "y * Q + x < y * Q + Q" using a(2) by simp
  also have "\<dots> = Suc y * Q" by simp
  also have "\<dots> \<le> P * Q" using a(1) by (intro mult_le_mono1) simp
  finally show ?thesis .
qed

lemma narrow_rows_4:
  assumes "shape t = [B, P, Q, D]"
  obtains r where "narrow 1 0 (int H) t = Some r" "shape r = [B, min H P, Q, D]"
    "\<And>b y x j. el r [b, y, x, j] = el t [b, y, x, j]"
  using assms
  by (simp add: narrow_def slice_len_def slice_start_def slice_norm_def min_def)

lemma narrow_columns_4:
  assumes "shape t = [B, P, Q, D]"
  obtains r where "narrow 2 0 (int W) t = Some r" "shape r = [B, P, min W Q, D]"
    "\<And>b y x j. el r [b, y, x, j] = el t [b, y, x, j]"
  using assms
  by (simp add: narrow_def slice_len_def slice_start_def slice_norm_def min_def)

lemma restore_size_cong:
  assumes s1: "shape L1 = [B, Hp * Wp, D]" and s2: "shape L2 = [B, Hp * Wp, D]"
    and ag: "\<And>b y x j. b < B \<Longrightarrow> y < H \<Longrightarrow> x < W \<Longrightarrow> j < D \<Longrightarrow>
               el L1 [b, y * Wp + x, j] = el L2 [b, y * Wp + x, j]"
  shows "rel_option tensor_equal (restore_size B Hp Wp H W L1) (restore_size B Hp Wp H W L2)"
proof (cases "B * Hp * Wp = 0")
  case True
  have "view [int B, int Hp, int Wp, - 1] L = None" for L
    using True by (auto simp: view_def Let_def)
  then show ?thesis by (simp add: restore_size_def)
next
  case False
  have crop: "\<exists>u. (restore_size B Hp Wp H W L = view [int B, int (H * W), - 1] u) \<and>
      shape u = [B, min H Hp, min W Wp, D] \<and>
      (\<forall>b y x j. b < B \<longrightarrow> y < Hp \<longrightarrow> x < Wp \<longrightarrow> j < D \<longrightarrow>
         el u [b, y, x, j] = el L [b, y * Wp + x, j])"
    if s: "shape L = [B, Hp * Wp, D]" for L
  proof -
    define t where "t = reshape_to [B, Hp, Wp, D] L"
    have v: "view (map int [B, Hp, Wp] @ [- 1]) L = Some (reshape_to ([B, Hp, Wp] @ [D]) L)"
      by (rule view_last_inferred) (use False in \<open>simp_all add: s\<close>)
    have st: "shape t = [B, Hp, Wp, D]" by (simp add: t_def reshape_to_def)
    have et: "el t [b, y, x, j] = el L [b, y * Wp + x, j]"
      if "b < B" "y < Hp" "x < Wp" "j < D" for b y x j
      unfolding t_def
    proof (rule reshape_el)
      show "list_all2 (<) [b, y * Wp + x, j] (shape L)"
        using that in_grid[of y Hp x Wp] by (simp add: s)
      show "ravel [B, Hp, Wp, D] [b, y, x, j] = ravel (shape L) [b, y * Wp + x, j]"
        by (simp add: s algebra_simps)
    qed
    obtain r1 where r1: "narrow 1 0 (int H) t = Some r1" "shape r1 = [B, min H Hp, Wp, D]"
      "\<And>b y x j. el r1 [b, y, x, j] = el t [b, y, x, j]"
      using narrow_rows_4[OF st] by blast
    obtain r2 where r2: "narrow 2 0 (int W) r1 = Some r2" "shape r2 = [B, min H Hp, min W Wp, D]"
      "\<And>b y x j. el r2 [b, y, x, j] = el r1 [b, y, x, j]"
      using narrow_columns_4[OF r1(2)] by blast
    have "restore_size B Hp Wp H W L = view [int B, int (H * W), - 1] r2"
      using v r1(1) r2(1) by (simp add: restore_size_def t_def)
    then show ?thesis using r2(2) r2(3) r1(3) et by auto
  qed
  from crop[OF s1] obtain u1 where u1:
    "restore_size B Hp Wp H W L1 = view [int B, int (H * W), - 1] u1"
    "shape u1 = [B, min H Hp, min W Wp, D]"
    "\<And>b y x j. b < B \<Longrightarrow> y < Hp \<Longrightarrow> x < Wp \<Longrightarrow> j < D \<Longrightarrow>
         el u1 [b, y, x, j] = el L1 [b, y * Wp + x, j]" by blast
  from crop[OF s2] obtain u2 where u2:
    "restore_size B Hp Wp H W L2 = view [int B, int (H * W), - 1] u2"
    "shape u2 = [B, min H Hp, min W Wp, D]"
    "\<And>b y x j. b < B \<Longrightarrow> y < Hp \<Longrightarrow> x < Wp \<Longrightarrow> j < D \<Longrightarrow>
         el u2 [b, y, x, j] = el L2 [b, y * Wp + x, j]" by blast
  have "tensor_equal u1 u2"
    unfolding tensor_equal_iff
  proof (intro conjI allI impI)
    show "shape u1 = shape u2" by (simp add: u1(2) u2(2))
    fix idx assume "list_all2 (<) idx (shape u1)"
    then obtain b y x j where i: "idx = [b, y, x, j]" "b < B" "y < min H Hp" "x < min W Wp" "j < D"
      unfolding u1(2) by (rule valid4E)
    then show "el u1 idx = el u2 idx"
      using u1(3)[of b y x j] u2(3)[of b y x j] ag[of b y x j] by simp
  qed
  then show ?thesis unfolding u1(1) u2(1) by (rule view_cong)
qed

lemma bidx_same_length:
  "list_all2 (<) ix xs \<Longrightarrow> list_all2 (<) (map2 (\<lambda>d i. if d = 1 then 0 else i) xs ix) xs"
  for xs :: "nat list"
  by (induction ix xs rule: list_all2_induct) auto

lemma bidx_rev_in_range:
  "bshape_rev xs ys = Some zs \<Longrightarrow> list_all2 (<) ix zs \<Longrightarrow>
     list_all2 (<) (map2 (\<lambda>d i. if d = 1 then 0 else i) xs ix) xs"
proof (induction xs ys arbitrary: zs ix rule: bshape_rev.induct)
  case (1 ys)
  then show ?case by simp
next
  case (2 x xs)
  then show ?case using bidx_same_length[of ix "x # xs"] by simp
next
  case (3 x xs y ys)
  show ?case
  proof (cases "x = y \<or> y = 1")
    case True
    with "3.prems"(1) obtain zs' where z: "bshape_rev xs ys = Some zs'" "zs = x # zs'" by auto
    from "3.prems"(2) z(2) obtain i ix' where i: "ix = i # ix'" "i < x" "list_all2 (<) ix' zs'"
      by (auto simp: list_all2_Cons2)
    from "3.IH"(1)[OF True z(1) i(3)] i(1,2) show ?thesis by simp
  next
    case False
    with "3.prems"(1) have x: "x = 1" by (auto split: if_splits)
    with False "3.prems"(1) obtain zs' where z: "bshape_rev xs ys = Some zs'" "zs = y # zs'" by auto
    from "3.prems"(2) z(2) obtain i ix' where i: "ix = i # ix'" "list_all2 (<) ix' zs'"
      by (auto simp: list_all2_Cons2)
    from "3.IH"(2)[OF False x z(1) i(2)] i(1) x show ?thesis by simp
  qed
qed

lemma bidx_in_range:
  assumes "bshape a b = Some s" "list_all2 (<) idx s"
  shows "list_all2 (<) (bidx a idx) a"
proof -
  from assms(1) have r: "bshape_rev (rev a) (rev b) = Some (rev s)"
    by (auto simp: bshape_def)
  have "list_all2 (<) (rev idx) (rev s)" using assms(2) by simp
  from bidx_rev_in_range[OF r this]
  have m: "list_all2 (<) (map2 (\<lambda>d i. if d = 1 then 0 else i) (rev a) (rev idx)) (rev a)" .
  then have "length (zip (rev a) (rev idx)) = length a"
    using list_all2_lengthD by fastforce
  then have le: "length a \<le> length idx" by simp
  have "zip (rev a) (rev idx) = take (length a) (zip (rev a) (rev idx))" using le by simp
  also have "\<dots> = zip (rev a) (take (length a) (rev idx))" by (simp add: take_zip)
  also have "\<dots> = zip (rev a) (rev (drop (length idx - length a) idx))" by (simp add: take_rev)
  also have "\<dots> = rev (zip a (drop (length idx - length a) idx))"
    using le by (intro zip_rev) simp
  finally have "map2 (\<lambda>d i. if d = 1 then 0 else i) (rev a) (rev idx) = rev (bidx a idx)"
    by (simp add: bidx_def rev_map)
  with m show ?thesis by simp
qed

lemma bop_cong_left:
  assumes "tensor_equal a a'"
  shows "rel_option tensor_equal (bop f a b) (bop f a' b)"
proof (cases "bshape (shape a) (shape b)")
  case None
  then show ?thesis using assms by (simp add: bop_def tensor_equal_def)
next
  case (Some s)
  have sh: "shape a' = shape a" using assms by (simp add: tensor_equal_def)
  have "el a (bidx (shape a) idx) = el a' (bidx (shape a) idx)" if "list_all2 (<) idx s" for idx
    using bidx_in_range[OF Some that] assms by (simp add: tensor_equal_iff)
  then show ?thesis using Some by (simp add: bop_def sh tensor_equal_iff)
qed

lemma cat_cong_right:
  assumes "tensor_equal b b'"
  shows "rel_option tensor_equal (cat d a b) (cat d a b')"
proof (cases "d < length (shape a) \<and> length (shape a) = length (shape b) \<and>
         (shape a)[d := 0] = (shape b)[d := 0]")
  case False
  then show ?thesis using assms by (auto simp: cat_def tensor_equal_def)
next
  case True
  have sh: "shape b' = shape b" using assms by (simp add: tensor_equal_def)
  have "el b (idx[d := idx ! d - shape a ! d]) = el b' (idx[d := idx ! d - shape a ! d])"
    if v: "list_all2 (<) idx ((shape a)[d := shape a ! d + shape b ! d])"
      and ge: "\<not> idx ! d < shape a ! d" for idx
  proof -
    have l: "length idx = length (shape b)" using v True by (auto dest: list_all2_lengthD)
    have "idx[d := idx ! d - shape a ! d] ! i < shape b ! i" if i: "i < length (shape b)" for i
    proof (cases "i = d")
      case True
      have "idx ! d < shape a ! d + shape b ! d"
        using v i True \<open>d < length (shape a) \<and> _\<close> by (auto simp: list_all2_conv_all_nth)
      then show ?thesis using True ge i l by simp
    next
      case False
      have "idx ! i < (shape a)[d := shape a ! d + shape b ! d] ! i"
        using v i l by (auto simp: list_all2_conv_all_nth)
      moreover have "shape a ! i = shape b ! i"
      proof -
        from \<open>d < length (shape a) \<and> _\<close> have e: "(shape a)[d := 0] = (shape b)[d := 0]" by simp
        have "shape a ! i = (shape a)[d := 0] ! i" using False by simp
        also have "\<dots> = (shape b)[d := 0] ! i" by (simp only: e)
        also have "\<dots> = shape b ! i" using False by simp
        finally show ?thesis .
      qed
      ultimately show ?thesis using False by simp
    qed
    then have "list_all2 (<) (idx[d := idx ! d - shape a ! d]) (shape b)"
      using l by (simp add: list_all2_conv_all_nth)
    then show ?thesis using assms by (simp add: tensor_equal_iff)
  qed
  then show ?thesis using True by (simp add: cat_def sh tensor_equal_iff)
qed

lemma apply_linear_cong:
  assumes "tensor_equal x x'"
  shows "rel_option tensor_equal (apply_linear l x) (apply_linear l x')"
proof (cases "apply_linear l x")
  case None
  then show ?thesis using assms
    by (auto simp: apply_linear_def tensor_equal_def split: list.splits if_splits)
next
  case (Some r)
  have sh: "shape x' = shape x" using assms by (simp add: tensor_equal_def)
  from Some obtain n_out n_in where w: "shape (weight l) = [n_out, n_in]"
    by (auto simp: apply_linear_def split: list.splits)
  from Some w have ok: "shape x \<noteq> []" "last (shape x) = n_in"
    "\<not> (case bias l of None \<Rightarrow> False | Some b \<Rightarrow> shape b \<noteq> [n_out])"
    by (auto simp: apply_linear_def split: if_splits)
  have "el x (butlast idx @ [i]) = el x' (butlast idx @ [i])"
    if v: "list_all2 (<) idx (butlast (shape x) @ [n_out])" and i: "i < n_in" for idx i
  proof -
    from v have "list_all2 (<) (butlast idx) (butlast (shape x))"
      by (auto simp: list_all2_append2 list_all2_Cons2 butlast_append)
    then have "list_all2 (<) (butlast idx @ [i]) (butlast (shape x) @ [last (shape x)])"
      using i ok(2) by (intro list_all2_appendI) simp_all
    then have "list_all2 (<) (butlast idx @ [i]) (shape x)" using ok(1) by simp
    then show ?thesis using assms by (simp add: tensor_equal_iff)
  qed
  then show ?thesis using w ok
    by (simp add: apply_linear_def sh tensor_equal_iff)
qed

lemma rel_option_bind:
  assumes "rel_option R a b" "\<And>x y. R x y \<Longrightarrow> rel_option S (f x) (g y)"
  shows "rel_option S (Option.bind a f) (Option.bind b g)"
  using assms by (cases a; cases b) auto

lemma attention_output_cong:
  assumes "tensor_equal xi xi'"
  shows "rel_option tensor_equal (attention_output m xc xi bc) (attention_output m xc xi' bc)"
proof -
  have a: "rel_option tensor_equal (bop (+) xi bc) (bop (+) xi' bc)"
    by (rule bop_cong_left[OF assms])
  show ?thesis
    unfolding attention_output_def t_add_def
  proof (rule rel_option_bind[OF a])
    fix s s' assume e: "tensor_equal s s'"
    show "rel_option tensor_equal (Option.bind (cat 1 xc s) (apply_linear (proj m)))
            (Option.bind (cat 1 xc s') (apply_linear (proj m)))"
      by (rule rel_option_bind[OF cat_cong_right[OF e]]) (rule apply_linear_cong)
  qed
qed

text \<open>
  Claim C5, amended. What the local pass computes at the padded positions never reaches the
  output: let two local passes return, on the padded tokens of the input, results of the
  shape \<open>[B, Hp * Wp, D]\<close> that agree at the original \<open>H\<close> by \<open>W\<close> positions (or let both
  raise). Then \<open>Attention.forward\<close> with either of them returns the same output, or raises
  with both.
\<close>

theorem padded_outputs_are_cropped:
  assumes x: "shape x = [B, N, C]"
    and loc: "\<And>q k v qc Hp Wp. attention_tokens m x H W = Some (q, k, v, qc, Hp, Wp) \<Longrightarrow>
       rel_option (agree_on_original B H W Hp Wp) (local1 q k v Hp Wp) (local2 q k v Hp Wp)"
  shows "rel_option tensor_equal (Attention_forward_with local1 m x H W)
           (Attention_forward_with local2 m x H W)"
proof (cases "attention_tokens m x H W")
  case None
  then show ?thesis by (simp add: Attention_forward_with_sections[OF x])
next
  case (Some tup)
  obtain q k v qc Hp Wp where tup: "tup = (q, k, v, qc, Hp, Wp)" by (cases tup) auto
  have tok: "attention_tokens m x H W = Some (q, k, v, qc, Hp, Wp)" using Some tup by simp
  have rest: "rel_option tensor_equal
       (Option.bind (restore_size B Hp Wp H W L1)
          (\<lambda>xi. Option.bind (attention_global m B C Hp Wp H W q k v qc)
             (\<lambda>(xc, bc). attention_output m xc xi bc)))
       (Option.bind (restore_size B Hp Wp H W L2)
          (\<lambda>xi. Option.bind (attention_global m B C Hp Wp H W q k v qc)
             (\<lambda>(xc, bc). attention_output m xc xi bc)))"
    if ag: "agree_on_original B H W Hp Wp L1 L2" for L1 L2
  proof -
    define D where "D = shape L1 ! 2"
    from ag have s: "shape L1 = [B, Hp * Wp, D]" "shape L2 = [B, Hp * Wp, D]"
      and e: "\<And>b y x j. b < B \<Longrightarrow> y < H \<Longrightarrow> x < W \<Longrightarrow> j < D \<Longrightarrow>
               el L1 [b, y * Wp + x, j] = el L2 [b, y * Wp + x, j]"
      by (simp_all add: agree_on_original_def D_def)
    have r: "rel_option tensor_equal (restore_size B Hp Wp H W L1) (restore_size B Hp Wp H W L2)"
      by (rule restore_size_cong[OF s e])
    show ?thesis
    proof (rule rel_option_bind[OF r])
      fix xi xi' assume t: "tensor_equal xi xi'"
      show "rel_option tensor_equal
          (Option.bind (attention_global m B C Hp Wp H W q k v qc)
             (\<lambda>(xc, bc). attention_output m xc xi bc))
          (Option.bind (attention_global m B C Hp Wp H W q k v qc)
             (\<lambda>(xc, bc). attention_output m xc xi' bc))"
      proof (cases "attention_global m B C Hp Wp H W q k v qc")
        case None
        then show ?thesis by simp
      next
        case (Some g)
        then show ?thesis using attention_output_cong[OF t] by (cases g) simp
      qed
    qed
  qed
  have "rel_option tensor_equal
       (Option.bind (local1 q k v Hp Wp)
          (\<lambda>L. Option.bind (restore_size B Hp Wp H W L)
            (\<lambda>xi. Option.bind (attention_global m B C Hp Wp H W q k v qc)
               (\<lambda>(xc, bc). attention_output m xc xi bc))))
       (Option.bind (local2 q k v Hp Wp)
          (\<lambda>L. Option.bind (restore_size B Hp Wp H W L)
            (\<lambda>xi. Option.bind (attention_global m B C Hp Wp H W q k v qc)
               (\<lambda>(xc, bc). attention_output m xc xi bc))))"
    by (rule rel_option_bind[OF loc[OF tok]]) (rule rest)
  then show ?thesis by (simp add: Attention_forward_with_sections[OF x] tok)
qed

text \<open>
  The hypotheses hold for \<open>forward_local\<close> and for \<open>forward_local\<close> followed by writing 7
  at the padded positions of its result, on the image of one pixel; the forward pass returns
  there.
\<close>

theorem padded_outputs_are_cropped_witness:
  "shape example_x = [1, 2, 1] \<and>
   (\<exists>q k v qc L. attention_tokens example_attention example_x 1 1 = Some (q, k, v, qc, 2, 2) \<and>
      forward_local example_attention q k v 2 2 = Some L \<and>
      rel_option (agree_on_original 1 1 1 2 2) (forward_local example_attention q k v 2 2)
        (overwrite_padded 1 1 7 (forward_local example_attention) q k v 2 2)) \<and>
   Attention_forward_with (forward_local example_attention) example_attention example_x 1 1 \<noteq> None \<and>
   rel_option tensor_equal
     (Attention_forward_with (forward_local example_attention) example_attention example_x 1 1)
     (Attention_forward_with (overwrite_padded 1 1 7 (forward_local example_attention))
        example_attention example_x 1 1)"
proof -
  have sx: "shape example_x = [1, 2, 1]" by (simp add: example_x_def tensor_of_def)
  obtain q k v qc where t:
    "attention_tokens example_attention example_x 1 1 = Some (q, k, v, qc, 2, 2)"
    "shape q = [1, 1, 4, 1]" "shape k = [1, 1, 4, 1]" "shape v = [1, 1, 4, 1]"
    "shape qc = [1, 1, 1, 1]" "el q [0, 0, 0, 0] = 0"
    "el v [0, 0, 0, 0] = 4" "el v [0, 0, 1, 0] = 0" "el v [0, 0, 2, 0] = 0" "el v [0, 0, 3, 0] = 0"
    by (rule example_tokens_value)
  obtain L where L: "forward_local example_attention q k v 2 2 = Some L" "shape L = [1, 4, 1]"
    using example_local_value[OF t(2,3,4,6,7,8,9,10)] by blast
  have ag: "rel_option (agree_on_original 1 1 1 2 2) (forward_local example_attention q k v 2 2)
        (overwrite_padded 1 1 7 (forward_local example_attention) q k v 2 2)"
    using L by (simp add: overwrite_padded_def agree_on_original_def)
  have hyp: "rel_option (agree_on_original 1 1 1 Hp Wp) (forward_local example_attention q' k' v' Hp Wp)
        (overwrite_padded 1 1 7 (forward_local example_attention) q' k' v' Hp Wp)"
    if "attention_tokens example_attention example_x 1 1 = Some (q', k', v', qc', Hp, Wp)"
    for q' k' v' qc' Hp Wp
    using that t(1) ag by simp
  have val: "map_option data
      (Attention_forward_with (forward_local example_attention) example_attention example_x 1 1)
      = Some [4, 1]"
    by (rule example_forward_value) (rule example_local_value)
  have run: "Attention_forward_with (forward_local example_attention) example_attention example_x 1 1 \<noteq> None"
    using val
    by (cases "Attention_forward_with (forward_local example_attention) example_attention example_x 1 1")
      simp_all
  have ex: "\<exists>q k v qc L. attention_tokens example_attention example_x 1 1 = Some (q, k, v, qc, 2, 2) \<and>
      forward_local example_attention q k v 2 2 = Some L \<and>
      rel_option (agree_on_original 1 1 1 2 2) (forward_local example_attention q k v 2 2)
        (overwrite_padded 1 1 7 (forward_local example_attention) q k v 2 2)"
    by (intro exI conjI) (rule t(1) L(1) ag)+
  have concl: "rel_option tensor_equal
     (Attention_forward_with (forward_local example_attention) example_attention example_x 1 1)
     (Attention_forward_with (overwrite_padded 1 1 7 (forward_local example_attention))
        example_attention example_x 1 1)"
    by (rule padded_outputs_are_cropped[OF sx hyp])
  show ?thesis by (intro conjI sx ex run concl)
qed

end
